theory Spec2Isabelle
  imports Complex_Main "HOL-Library.Sublist" "HOL-Library.Multiset" "HOL-Library.Word"
begin

section \<open>JavaScript numbers\<close>

text \<open>
  A JavaScript number is an IEEE 754 double. The finite doubles are modelled as the real
  numbers they denote, and an arithmetic operation of the source is the operation on the
  reals followed by \<open>fl64\<close>, the rounding to the nearest double, ties to the even
  significand. A positive number is scaled to a significand \<open>m\<close> in \<open>[2^52, 2^53)\<close> and
  an exponent \<open>e\<close> with \<open>x = m * 2^e\<close>, and \<open>m\<close> is rounded to an integer; below the
  normal range the exponent stays at \<open>-1074\<close> (subnormal numbers). Comparisons,
  \<open>Math.min\<close>, \<open>Math.max\<close> and \<open>Math.abs\<close> are exact. NaN, the infinities and the sign of
  zero are outside the model: beyond the largest double the exponent stays at \<open>971\<close>, where
  JavaScript answers \<open>Infinity\<close>.
\<close>

definition pow2 :: "int \<Rightarrow> real" where
  "pow2 e = (if 0 \<le> e then 2 ^ nat e else 1 / 2 ^ nat (- e))"

definition roundHalfEven :: "real \<Rightarrow> int" where
  "roundHalfEven x =
     (let f = \<lfloor>x\<rfloor>; d = x - of_int f in
      if d < 1 / 2 then f else if 1 / 2 < d then f + 1 else if even f then f else f + 1)"

function scaleUp :: "real \<Rightarrow> int \<Rightarrow> real \<times> int" where
  "scaleUp m e = (if m < 2 ^ 52 \<and> - 1074 < e then scaleUp (2 * m) (e - 1) else (m, e))"
  by pat_completeness auto
termination by (relation "measure (\<lambda>(m, e). nat (e + 1074))") auto

function scaleDown :: "real \<Rightarrow> int \<Rightarrow> real \<times> int" where
  "scaleDown m e = (if 2 ^ 53 \<le> m \<and> e < 971 then scaleDown (m / 2) (e + 1) else (m, e))"
  by pat_completeness auto
termination by (relation "measure (\<lambda>(m, e). nat (971 - e))") auto

definition normalize64 :: "real \<Rightarrow> real \<times> int" where
  "normalize64 x = (if x < 2 ^ 52 then scaleUp x 0 else scaleDown x 0)"

definition magnitude64 :: "real \<Rightarrow> real" where
  "magnitude64 x = (case normalize64 x of (m, e) \<Rightarrow> of_int (roundHalfEven m) * pow2 e)"

definition fl64 :: "real \<Rightarrow> real" where
  "fl64 x = (if x < 0 then - magnitude64 (- x) else magnitude64 x)"

section \<open>Cost-basis engine (src/lib/cost-basis.ts)\<close>

text \<open>
  Every sum, difference, product and quotient of the source is rounded by \<^const>\<open>fl64\<close>.
  Strings are byte strings; \<open>toUpperCase\<close> is modelled on the ASCII letters.
\<close>

datatype txType = Buy | Sell | Transfer | Stake | Airdrop

record Transaction =
  tx_hash :: string
  tx_type :: txType
  tx_asset :: string
  tx_amount :: real
  tx_timestamp :: real
  tx_valueEur :: real
  tx_fee :: real
  tx_feeEur :: real

datatype CostBasisMethod = FIFO | LIFO | HIFO

record CostBasisLot =
  lot_id :: string
  lot_asset :: string
  lot_amount :: real
  lot_remainingAmount :: real
  lot_costPerUnit :: real
  lot_totalCost :: real
  lot_timestamp :: real
  lot_txHash :: string

record LotUse =
  use_lotId :: string
  use_amountUsed :: real
  use_costPerUnit :: real
  use_cost :: real

record SaleResult =
  sale_transaction :: Transaction
  sale_proceeds :: real
  sale_costBasis :: real
  sale_gainLoss :: real
  sale_lotsUsed :: "LotUse list"

record UnrealizedEntry =
  ue_amount :: real
  ue_costBasis :: real
  ue_avgCost :: real

record CostBasisResult =
  res_lots :: "CostBasisLot list"
  res_sales :: "SaleResult list"
  res_totalGains :: real
  res_totalLosses :: real
  res_netGain :: real
  res_unrealizedGains :: "(string \<times> UnrealizedEntry) list"

text \<open>
  The hidden state the engine reads. Each new lot gets the identifier
  \<^verbatim>\<open>`${tx.hash}-${Date.now()}-${Math.random().toString(36).substr(2, 5)}`\<close>;
  \<open>env k\<close> is the text \<^verbatim>\<open>`${Date.now()}-${Math.random()...}`\<close> that the clock and the
  random generator produce at the \<open>k\<close>-th lot creation of a run.
\<close>

type_synonym entropy = "nat \<Rightarrow> string"

definition upperChar :: "char \<Rightarrow> char" where
  "upperChar c =
     (case map_of (zip ''abcdefghijklmnopqrstuvwxyz'' ''ABCDEFGHIJKLMNOPQRSTUVWXYZ'') c of
        Some u \<Rightarrow> u
      | None \<Rightarrow> c)"

definition toUpperCase :: "string \<Rightarrow> string" where
  "toUpperCase s = map upperChar s"

text \<open>
  Line 71-77: the timestamp of a transaction is a number (the type of \<open>Transaction\<close>), so
  only the numeric branch of the normalisation is modelled.
\<close>

definition normalizeTx :: "Transaction \<Rightarrow> Transaction" where
  "normalizeTx tx = tx\<lparr>tx_timestamp :=
     (if tx_timestamp tx < 1000000000000 then fl64 (tx_timestamp tx * 1000)
      else tx_timestamp tx)\<rparr>"

text \<open>
  Line 80: \<open>Array.prototype.sort\<close> is stable, as \<^const>\<open>sort_key\<close> is. The comparator
  \<open>a.timestamp - b.timestamp\<close> is read by its sign, and the rounded difference of two
  doubles has the sign of their difference, so the sort is a sort on the key.
\<close>

definition sortedTx :: "Transaction list \<Rightarrow> Transaction list" where
  "sortedTx transactions = sort_key tx_timestamp (map normalizeTx transactions)"

text \<open>
  The lots of one asset are objects shared between \<open>lotsByAsset[asset]\<close> and the sorted
  copy of that array: the copy holds the same objects. A lot object is therefore named by its
  position in \<open>lotsByAsset[asset]\<close>, and \<open>getLotsForMethod\<close> returns positions. A sort
  with comparator \<open>b.k - a.k\<close> is a stable sort on the negated key.
\<close>

definition getLotsForMethod :: "CostBasisLot list \<Rightarrow> CostBasisMethod \<Rightarrow> nat list" where
  "getLotsForMethod lots m =
     (let available = filter (\<lambda>i. lot_remainingAmount (lots ! i) > 0) [0..<length lots] in
      case m of
        LIFO \<Rightarrow> sort_key (\<lambda>i. - lot_timestamp (lots ! i)) available
      | HIFO \<Rightarrow> sort_key (\<lambda>i. - lot_costPerUnit (lots ! i)) available
      | FIFO \<Rightarrow> sort_key (\<lambda>i. lot_timestamp (lots ! i)) available)"

text \<open>\<open>lots.find(l => l.id === lot.id)\<close>, as the position of the object found.\<close>

fun findIndex :: "('a \<Rightarrow> bool) \<Rightarrow> 'a list \<Rightarrow> nat option" where
  "findIndex P [] = None"
| "findIndex P (x # xs) =
     (if P x then Some 0 else map_option Suc (findIndex P xs))"

text \<open>
  Lines 141-163, the loop over \<open>orderedLots\<close>. The state of the loop is the array of lots,
  \<open>remainingToSell\<close>, \<open>totalCostBasis\<close> and \<open>lotsUsed\<close>.
\<close>

fun consumeLots :: "nat list \<Rightarrow> CostBasisLot list \<Rightarrow> real \<Rightarrow> real \<Rightarrow> LotUse list
    \<Rightarrow> CostBasisLot list \<times> real \<times> real \<times> LotUse list" where
  "consumeLots [] lots remainingToSell totalCostBasis lotsUsed =
     (lots, remainingToSell, totalCostBasis, lotsUsed)"
| "consumeLots (i # rest) lots remainingToSell totalCostBasis lotsUsed =
     (if remainingToSell \<le> 0 then (lots, remainingToSell, totalCostBasis, lotsUsed)
      else if lot_remainingAmount (lots ! i) \<le> 0
      then consumeLots rest lots remainingToSell totalCostBasis lotsUsed
      else
        let lot = lots ! i;
            amountFromThisLot = min (lot_remainingAmount lot) remainingToSell;
            costFromThisLot = fl64 (amountFromThisLot * lot_costPerUnit lot);
            lots' = (case findIndex (\<lambda>l. lot_id l = lot_id lot) lots of
                       Some j \<Rightarrow> lots[j := (lots ! j)\<lparr>lot_remainingAmount :=
                                   fl64 (lot_remainingAmount (lots ! j) - amountFromThisLot)\<rparr>]
                     | None \<Rightarrow> lots)
        in consumeLots rest lots' (fl64 (remainingToSell - amountFromThisLot))
             (fl64 (totalCostBasis + costFromThisLot))
             (lotsUsed @ [\<lparr>use_lotId = lot_id lot, use_amountUsed = amountFromThisLot,
                           use_costPerUnit = lot_costPerUnit lot, use_cost = costFromThisLot\<rparr>]))"

text \<open>
  The variables of \<open>calculateCostBasis\<close> that the main loop updates. \<open>lotsByAsset\<close> is an
  object used as a dictionary: \<open>e_keys\<close> are its keys in insertion order, and
  \<open>e_lotsByAsset\<close> gives the array under a key (no array is the empty array, which is what
  \<open>lotsByAsset[asset] || []\<close> reads). \<open>e_created\<close> counts the lots created so far.
\<close>

record engine =
  e_keys :: "string list"
  e_lotsByAsset :: "string \<Rightarrow> CostBasisLot list"
  e_sales :: "SaleResult list"
  e_totalGains :: real
  e_totalLosses :: real
  e_created :: nat

definition initEngine :: engine where
  "initEngine = \<lparr>e_keys = [], e_lotsByAsset = (\<lambda>_. []), e_sales = [],
     e_totalGains = 0, e_totalLosses = 0, e_created = 0\<rparr>"

definition isAcquisition :: "Transaction \<Rightarrow> bool" where
  "isAcquisition tx = (tx_type tx = Buy \<or> tx_type tx = Airdrop \<or> tx_type tx = Transfer)"

text \<open>Lines 107-186, one iteration of the main loop.\<close>

definition processTx :: "entropy \<Rightarrow> CostBasisMethod \<Rightarrow> Transaction \<Rightarrow> engine \<Rightarrow> engine" where
  "processTx env method tx s =
     (let asset = toUpperCase (tx_asset tx) in
      if isAcquisition tx then
        let effectiveValueEur = (if tx_valueEur tx = 0 then 0 else tx_valueEur tx);
            costPerUnit = (if tx_amount tx > 0 then fl64 (effectiveValueEur / tx_amount tx)
                           else 0);
            lot = \<lparr>lot_id = tx_hash tx @ ''-'' @ env (e_created s),
                   lot_asset = asset, lot_amount = tx_amount tx,
                   lot_remainingAmount = tx_amount tx, lot_costPerUnit = costPerUnit,
                   lot_totalCost = effectiveValueEur, lot_timestamp = tx_timestamp tx,
                   lot_txHash = tx_hash tx\<rparr>
        in s\<lparr>e_keys := (if asset \<in> set (e_keys s) then e_keys s else e_keys s @ [asset]),
              e_lotsByAsset := (e_lotsByAsset s)(asset := e_lotsByAsset s asset @ [lot]),
              e_created := Suc (e_created s)\<rparr>
      else if tx_type tx = Sell then
        let lots = e_lotsByAsset s asset;
            orderedLots = getLotsForMethod lots method;
            (lots', remainingToSell, totalCostBasis, lotsUsed) =
               consumeLots orderedLots lots (tx_amount tx) 0 [];
            proceeds = tx_valueEur tx;
            gainLoss = fl64 (proceeds - totalCostBasis)
        in s\<lparr>e_lotsByAsset := (e_lotsByAsset s)(asset := lots'),
              e_sales := e_sales s @ [\<lparr>sale_transaction = tx, sale_proceeds = proceeds,
                 sale_costBasis = totalCostBasis, sale_gainLoss = gainLoss,
                 sale_lotsUsed = lotsUsed\<rparr>],
              e_totalGains := (if gainLoss > 0 then fl64 (e_totalGains s + gainLoss)
                               else e_totalGains s),
              e_totalLosses := (if gainLoss > 0 then e_totalLosses s
                                else fl64 (e_totalLosses s + \<bar>gainLoss\<bar>))\<rparr>
      else s)"

text \<open>
  \<open>Object.entries\<close> and \<open>Object.values\<close> list the keys that are array indices (canonical
  decimal numerals below \<open>2^32 - 1\<close>) first, in ascending numeric order, and then the other
  keys in insertion order.
\<close>

definition isDigit :: "char \<Rightarrow> bool" where
  "isDigit c = (48 \<le> (of_char c :: nat) \<and> (of_char c :: nat) \<le> 57)"

definition decimalValue :: "string \<Rightarrow> nat" where
  "decimalValue s = foldl (\<lambda>n c. 10 * n + ((of_char c :: nat) - 48)) 0 s"

definition isArrayIndex :: "string \<Rightarrow> bool" where
  "isArrayIndex s = (s \<noteq> [] \<and> list_all isDigit s \<and> (s = ''0'' \<or> hd s \<noteq> CHR ''0'')
     \<and> decimalValue s < 4294967295)"

definition ownKeys :: "string list \<Rightarrow> string list" where
  "ownKeys ks = sort_key decimalValue (filter isArrayIndex ks)
                @ filter (\<lambda>k. \<not> isArrayIndex k) ks"

text \<open>Lines 191-203, the entry of one asset in \<open>unrealizedGains\<close>, if it gets one.\<close>

definition unrealizedOf :: "CostBasisLot list \<Rightarrow> UnrealizedEntry option" where
  "unrealizedOf lots =
     (let remainingLots = filter (\<lambda>l. lot_remainingAmount l > 0) lots;
          totalAmount = foldl (\<lambda>sum l. fl64 (sum + lot_remainingAmount l)) 0 remainingLots;
          totalCostBasis =
            foldl (\<lambda>sum l. fl64 (sum + fl64 (lot_remainingAmount l * lot_costPerUnit l))) 0
              remainingLots
      in if totalAmount > 0
         then Some \<lparr>ue_amount = totalAmount, ue_costBasis = totalCostBasis,
                    ue_avgCost = fl64 (totalCostBasis / totalAmount)\<rparr>
         else None)"

definition finish :: "engine \<Rightarrow> CostBasisResult" where
  "finish s =
     \<lparr>res_lots = concat (map (e_lotsByAsset s) (ownKeys (e_keys s))),
      res_sales = e_sales s,
      res_totalGains = e_totalGains s,
      res_totalLosses = e_totalLosses s,
      res_netGain = fl64 (e_totalGains s - e_totalLosses s),
      res_unrealizedGains = concat (map (\<lambda>asset.
         case unrealizedOf (e_lotsByAsset s asset) of
           None \<Rightarrow> [] | Some u \<Rightarrow> [(asset, u)]) (ownKeys (e_keys s)))\<rparr>"

definition calculateCostBasis ::
    "entropy \<Rightarrow> Transaction list \<Rightarrow> CostBasisMethod \<Rightarrow> CostBasisResult" where
  "calculateCostBasis env transactions method =
     finish (fold (processTx env method) (sortedTx transactions) initEngine)"


subsection \<open>Year filter and unrealized gains\<close>

record YearResult =
  yr_totalGains :: real
  yr_totalLosses :: real
  yr_netGain :: real
  yr_taxableEvents :: "SaleResult list"

text \<open>
  Lines 229-252. \<open>new Date(t).getFullYear()\<close> is the calendar year of \<open>t\<close> in the local
  time zone of the browser; it is the parameter \<open>getFullYear\<close>.
\<close>

definition filterTaxResultsByYear ::
    "(real \<Rightarrow> int) \<Rightarrow> CostBasisResult \<Rightarrow> real \<Rightarrow> YearResult" where
  "filterTaxResultsByYear getFullYear result year =
     (let taxableEvents = filter (\<lambda>sale.
            real_of_int (getFullYear (tx_timestamp (sale_transaction sale))) = year)
            (res_sales result);
          totalGains = foldl (\<lambda>sum s. fl64 (sum + max 0 (sale_gainLoss s))) 0 taxableEvents;
          totalLosses =
            foldl (\<lambda>sum s. fl64 (sum + \<bar>min 0 (sale_gainLoss s)\<bar>)) 0 taxableEvents
      in \<lparr>yr_totalGains = totalGains, yr_totalLosses = totalLosses,
          yr_netGain = fl64 (totalGains - totalLosses), yr_taxableEvents = taxableEvents\<rparr>)"

record UnrealizedByAsset =
  ub_amount :: real
  ub_costBasis :: real
  ub_currentValue :: real
  ub_unrealizedGainLoss :: real

record UnrealizedTotals =
  ut_totalUnrealizedGain :: real
  ut_totalUnrealizedLoss :: real
  ut_byAsset :: "string \<rightharpoonup> UnrealizedByAsset"

text \<open>
  Line 270, \<open>currentPrices[asset] || currentPrices[asset.toUpperCase()] || 0\<close>: a missing
  price and the price 0 both fall through to the next alternative. The prices are the own
  properties of \<open>currentPrices\<close>.
\<close>

definition currentPriceOf :: "(string \<rightharpoonup> real) \<Rightarrow> string \<Rightarrow> real" where
  "currentPriceOf currentPrices asset =
     (case currentPrices asset of
        Some p \<Rightarrow> if p \<noteq> 0 then p
                  else (case currentPrices (toUpperCase asset) of
                          Some q \<Rightarrow> if q \<noteq> 0 then q else 0 | None \<Rightarrow> 0)
      | None \<Rightarrow> (case currentPrices (toUpperCase asset) of
                    Some q \<Rightarrow> if q \<noteq> 0 then q else 0 | None \<Rightarrow> 0))"

text \<open>
  Lines 269-300, one iteration of the loop over the entries of \<open>unrealizedGains\<close>. The
  literal \<open>0.01\<close> is the double nearest to \<open>1 / 100\<close>, just above it; no double lies
  between the two, so that a double is below the one when it is below the other.
\<close>

definition unrealizedStep ::
    "(string \<rightharpoonup> real) \<Rightarrow> UnrealizedTotals \<Rightarrow> string \<times> UnrealizedEntry \<Rightarrow> UnrealizedTotals" where
  "unrealizedStep currentPrices acc entry =
     (let asset = fst entry; data = snd entry;
          currentPrice = currentPriceOf currentPrices asset;
          currentValue = fl64 (ue_amount data * currentPrice);
          unrealizedGainLoss0 = fl64 (currentValue - ue_costBasis data);
          unrealizedGainLoss =
            (if ue_costBasis data = 0 \<or> ue_costBasis data < 1 / 100 then 0
             else if unrealizedGainLoss0 > currentValue then fl64 (currentValue * (1 / 2))
             else unrealizedGainLoss0)
      in \<lparr>ut_totalUnrealizedGain =
            (if unrealizedGainLoss > 0
             then fl64 (ut_totalUnrealizedGain acc + unrealizedGainLoss)
             else ut_totalUnrealizedGain acc),
          ut_totalUnrealizedLoss =
            (if unrealizedGainLoss > 0 then ut_totalUnrealizedLoss acc
             else fl64 (ut_totalUnrealizedLoss acc + \<bar>unrealizedGainLoss\<bar>)),
          ut_byAsset = (ut_byAsset acc)(asset \<mapsto>
            \<lparr>ub_amount = ue_amount data, ub_costBasis = ue_costBasis data,
             ub_currentValue = currentValue, ub_unrealizedGainLoss = unrealizedGainLoss\<rparr>)\<rparr>)"

text \<open>
  The first argument of \<open>calculateUnrealizedGains\<close> is given by its entries, in the order
  of \<open>Object.entries\<close>.
\<close>

definition calculateUnrealizedGains ::
    "(string \<times> UnrealizedEntry) list \<Rightarrow> (string \<rightharpoonup> real) \<Rightarrow> UnrealizedTotals" where
  "calculateUnrealizedGains unrealizedGains currentPrices =
     foldl (unrealizedStep currentPrices)
       \<lparr>ut_totalUnrealizedGain = 0, ut_totalUnrealizedLoss = 0, ut_byAsset = Map.empty\<rparr>
       unrealizedGains"

section \<open>Vault (cryptoVault.ts)\<close>

text \<open>
  The values that are encrypted and stored are JSON values. A \<open>Uint8Array\<close> is a list of
  bytes. A promise is modelled by its outcome: the value it resolves to, or the error it
  rejects with.
\<close>

datatype json = JNull | JBool bool | JNum real | JStr string
  | JArr "json list" | JObj "(string \<times> json) list"

type_synonym bytes = "8 word list"

datatype vaultError =
    VaultLockedError
  | VaultCryptoError
  | OperationError
  | InvalidCharacterError
  | SyntaxError
  | Error string

text \<open>
  What the code takes from the browser and from its libraries: \<open>JSON.stringify\<close> and
  \<open>JSON.parse\<close> (no value on a \<open>SyntaxError\<close>), \<open>TextEncoder\<close> and \<open>TextDecoder\<close>,
  \<open>btoa\<close> and \<open>atob\<close> (no value on an \<open>InvalidCharacterError\<close>),
  \<open>crypto.subtle.encrypt\<close> and \<open>crypto.subtle.decrypt\<close> for AES-GCM with a key, an
  initialisation vector and a text (no value when the promise is rejected with an
  \<open>OperationError\<close>), and \<open>settingsSchema.safeParse\<close> of the schema library (no value
  when the validation fails). A \<open>CryptoKey\<close> is of type \<open>'k\<close>.
\<close>

record 'k platform =
  jsonStringify :: "json \<Rightarrow> string"
  jsonParse :: "string \<Rightarrow> json option"
  utf8Encode :: "string \<Rightarrow> bytes"
  utf8Decode :: "bytes \<Rightarrow> string"
  btoa :: "string \<Rightarrow> string"
  atob :: "string \<Rightarrow> string option"
  aesGcmEncrypt :: "'k \<Rightarrow> bytes \<Rightarrow> bytes \<Rightarrow> bytes option"
  aesGcmDecrypt :: "'k \<Rightarrow> bytes \<Rightarrow> bytes \<Rightarrow> bytes option"
  settingsSafeParse :: "json \<Rightarrow> json option"

record VaultMetaV1 =
  vm_salt :: string
  vm_iterations :: nat


record 'k UnlockedVault =
  uv_meta :: VaultMetaV1
  uv_key :: 'k







text \<open>
  A platform for the examples. Its cipher prefixes the text with the key, a single byte,
  and checks that byte on decryption; its JSON covers strings only.
\<close>

definition modelPlatform :: "8 word platform" where
  "modelPlatform =
     \<lparr>jsonStringify = (\<lambda>j. case j of JStr s \<Rightarrow> s | _ \<Rightarrow> []),
      jsonParse = (\<lambda>s. Some (JStr s)),
      utf8Encode = map (\<lambda>c. of_nat (of_char c :: nat)),
      utf8Decode = map (\<lambda>b. char_of (unat b)),
      btoa = (\<lambda>s. s),
      atob = (\<lambda>s. Some s),
      aesGcmEncrypt = (\<lambda>k iv pt. Some (k # pt)),
      aesGcmDecrypt = (\<lambda>k iv ct. case ct of [] \<Rightarrow> None
                         | t # pt \<Rightarrow> if t = k then Some pt else None),
      settingsSafeParse = (\<lambda>j. Some j)\<rparr>"

definition modelVault :: "8 word \<Rightarrow> 8 word UnlockedVault" where
  "modelVault k = \<lparr>uv_meta = \<lparr>vm_salt = ''c2FsdA=='', vm_iterations = 210000\<rparr>, uv_key = k\<rparr>"

section \<open>Secure storage (storage.ts)\<close>

definition WALLETS :: string where "WALLETS = ''crypta_wallets''"
definition TRANSACTIONS :: string where "TRANSACTIONS = ''crypta_transactions''"
definition SNAPSHOTS :: string where "SNAPSHOTS = ''crypta_snapshots''"
definition SETTINGS :: string where "SETTINGS = ''crypta_settings''"
definition ONBOARDING_COMPLETE :: string where "ONBOARDING_COMPLETE = ''crypta_onboarding''"
definition HIDDEN_ASSETS :: string where "HIDDEN_ASSETS = ''crypta_hidden_assets''"
definition SPAM_ASSETS :: string where "SPAM_ASSETS = ''crypta_spam_assets''"
definition PROVIDER_CONFIGS :: string where "PROVIDER_CONFIGS = ''crypta_provider_configs''"

definition ENCRYPTED_KEYS :: "string list" where
  "ENCRYPTED_KEYS = [WALLETS, TRANSACTIONS, SNAPSHOTS, PROVIDER_CONFIGS]"

text \<open>
  The state of the module and of the browser: the unlocked vault \<open>_vault\<close> (if any), the
  decrypted cache \<open>_secureCache\<close>, the content of \<open>localStorage\<close>, and the asynchronous
  jobs started so far, each of which will encrypt a versioned value and store the
  ciphertext under a key once the encryption has completed.
\<close>

record 'k storage =
  st_vault :: "'k UnlockedVault option"
  st_secureCache :: "string \<rightharpoonup> json"
  st_localStorage :: "string \<rightharpoonup> string"
  st_pending :: "(string \<times> json) list"

text \<open>Lines 188-194; every schema version of \<open>SCHEMA_VERSIONS\<close> is 1.\<close>

definition wrapVersioned :: "string \<Rightarrow> json \<Rightarrow> json" where
  "wrapVersioned key data = JObj [(''schemaVersion'', JNum 1), (''data'', data)]"

text \<open>
  Lines 288-310. The result is the value returned or the error thrown; the state is not
  changed. An error of \<open>JSON.parse\<close> is caught and logged, and the default is returned.
\<close>

definition getSecureData :: "'k platform \<Rightarrow> 'k storage \<Rightarrow> string \<Rightarrow> json \<Rightarrow> vaultError + json" where
  "getSecureData P s key defaultValue =
     (case st_localStorage s key of
        None \<Rightarrow> Inr defaultValue
      | Some raw \<Rightarrow>
          if raw = [] then Inr defaultValue
          else if key \<in> set ENCRYPTED_KEYS then
            (if st_vault s = None then Inl VaultLockedError
             else (case st_secureCache s key of
                     Some v \<Rightarrow> Inr v
                   | None \<Rightarrow> Inr defaultValue))
          else (case jsonParse P raw of
                  Some v \<Rightarrow> Inr v
                | None \<Rightarrow> Inr defaultValue))"

text \<open>
  Lines 315-334. The result is the error thrown, if any, and the state afterwards.
\<close>

definition setSecureData ::
    "'k platform \<Rightarrow> string \<Rightarrow> json \<Rightarrow> 'k storage \<Rightarrow> vaultError option \<times> 'k storage" where
  "setSecureData P key data s =
     (if key \<in> set ENCRYPTED_KEYS then
        (if st_vault s = None then (Some VaultLockedError, s)
         else (None, s\<lparr>st_secureCache := (st_secureCache s)(key \<mapsto> data),
                        st_pending := st_pending s @ [(key, wrapVersioned key data)]\<rparr>))
      else (None, s\<lparr>st_localStorage := (st_localStorage s)(key \<mapsto> jsonStringify P data)\<rparr>))"

text \<open>Lines 428-438.\<close>

definition DEFAULT_SETTINGS :: json where
  "DEFAULT_SETTINGS = JObj [(''taxMethod'', JStr ''FIFO''), (''country'', JStr ''IT''),
     (''currency'', JStr ''EUR''), (''taxThreshold'', JNum (5164569 / 100)),
     (''enableDAC8Alerts'', JBool True), (''useSubstituteTax2025'', JBool False),
     (''lossCompensationYears'', JNum 4), (''autoLockEnabled'', JBool True),
     (''autoLockMinutes'', JNum 15)]"

text \<open>Lines 470-478.\<close>

definition saveSettings :: "'k platform \<Rightarrow> json \<Rightarrow> 'k storage \<Rightarrow> 'k storage" where
  "saveSettings P settings s =
     (let finalSettings = (case settingsSafeParse P settings of
                             Some data \<Rightarrow> data | None \<Rightarrow> DEFAULT_SETTINGS)
      in s\<lparr>st_localStorage := (st_localStorage s)(SETTINGS \<mapsto>
            jsonStringify P (JObj [(''schemaVersion'', JNum 1), (''data'', finalSettings)]))\<rparr>)"

text \<open>
  The argument of \<open>importBackupData\<close>: its version tag \<open>v\<close> and its properties, each of
  which may be missing (\<open>??\<close> then takes the default). \<open>None\<close> for the whole argument is
  \<open>null\<close> or \<open>undefined\<close>.
\<close>

record BackupDataV1 =
  bk_v :: real
  bk_wallets :: "json option"
  bk_transactions :: "json option"
  bk_snapshots :: "json option"
  bk_providerConfigs :: "json option"
  bk_settings :: "json option"
  bk_onboardingComplete :: bool
  bk_hiddenAssets :: "json option"
  bk_spamAssets :: "json option"

definition orElse :: "'a option \<Rightarrow> 'a \<Rightarrow> 'a" where
  "orElse x d = (case x of Some v \<Rightarrow> v | None \<Rightarrow> d)"

text \<open>A statement that may throw, followed by the rest of the function.\<close>

definition andThen :: "vaultError option \<times> 's \<Rightarrow> ('s \<Rightarrow> vaultError option \<times> 's)
    \<Rightarrow> vaultError option \<times> 's" where
  "andThen r f = (case r of (Some e, s) \<Rightarrow> (Some e, s) | (None, s) \<Rightarrow> f s)"

text \<open>Lines 588-604.\<close>

definition importBackupData ::
    "'k platform \<Rightarrow> BackupDataV1 option \<Rightarrow> 'k storage \<Rightarrow> vaultError option \<times> 'k storage" where
  "importBackupData P backup s =
     (case backup of
        None \<Rightarrow> (Some (Error ''Backup non supportato''), s)
      | Some b \<Rightarrow>
          if bk_v b \<noteq> 1 then (Some (Error ''Backup non supportato''), s)
          else
            andThen (setSecureData P WALLETS (orElse (bk_wallets b) (JArr [])) s) (\<lambda>s.
            andThen (setSecureData P TRANSACTIONS (orElse (bk_transactions b) (JArr [])) s) (\<lambda>s.
            andThen (setSecureData P SNAPSHOTS (orElse (bk_snapshots b) (JArr [])) s) (\<lambda>s.
            andThen (setSecureData P PROVIDER_CONFIGS (orElse (bk_providerConfigs b) (JArr [])) s)
            (\<lambda>s.
              let s1 = saveSettings P (orElse (bk_settings b) DEFAULT_SETTINGS) s;
                  s2 = s1\<lparr>st_localStorage := (st_localStorage s1)(ONBOARDING_COMPLETE \<mapsto>
                         (if bk_onboardingComplete b then ''true'' else ''false''))\<rparr>;
                  s3 = s2\<lparr>st_localStorage := (st_localStorage s2)(HIDDEN_ASSETS \<mapsto>
                         jsonStringify P (orElse (bk_hiddenAssets b) (JArr [])))\<rparr>;
                  s4 = s3\<lparr>st_localStorage := (st_localStorage s3)(SPAM_ASSETS \<mapsto>
                         jsonStringify P (orElse (bk_spamAssets b) (JArr [])))\<rparr>
              in (None, s4))))))"

text \<open>States and a backup for the examples.\<close>

definition lockedEmpty :: "8 word storage" where
  "lockedEmpty = \<lparr>st_vault = None, st_secureCache = Map.empty,
     st_localStorage = Map.empty, st_pending = []\<rparr>"

definition lockedWithData :: "8 word storage" where
  "lockedWithData = \<lparr>st_vault = None, st_secureCache = Map.empty,
     st_localStorage = [''crypta_wallets'' \<mapsto> ''{\"v\":1,\"iv\":\"aXY=\",\"ct\":\"Y3Q=\"}''],
     st_pending = []\<rparr>"

definition unlockedEmpty :: "8 word storage" where
  "unlockedEmpty = \<lparr>st_vault = Some (modelVault 7), st_secureCache = Map.empty,
     st_localStorage = Map.empty, st_pending = []\<rparr>"

definition backupOfVersion :: "real \<Rightarrow> BackupDataV1" where
  "backupOfVersion v = \<lparr>bk_v = v, bk_wallets = Some (JArr [JStr ''w'']),
     bk_transactions = None, bk_snapshots = None, bk_providerConfigs = None,
     bk_settings = None, bk_onboardingComplete = True, bk_hiddenAssets = None,
     bk_spamAssets = None\<rparr>"

section \<open>Notions of the statements and examples\<close>






text \<open>A result with the lot identifiers blanked, in the lots and in the lots used.\<close>

definition eraseLot :: "CostBasisLot \<Rightarrow> CostBasisLot" where
  "eraseLot l = l\<lparr>lot_id := []\<rparr>"

definition eraseUse :: "LotUse \<Rightarrow> LotUse" where
  "eraseUse u = u\<lparr>use_lotId := []\<rparr>"

definition eraseSale :: "SaleResult \<Rightarrow> SaleResult" where
  "eraseSale s = s\<lparr>sale_lotsUsed := map eraseUse (sale_lotsUsed s)\<rparr>"

definition eraseIds :: "CostBasisResult \<Rightarrow> CostBasisResult" where
  "eraseIds r = r\<lparr>res_lots := map eraseLot (res_lots r),
                   res_sales := map eraseSale (res_sales r)\<rparr>"

definition eraseEngine :: "engine \<Rightarrow> engine" where
  "eraseEngine s = s\<lparr>e_lotsByAsset := (\<lambda>a. map eraseLot (e_lotsByAsset s a)),
                      e_sales := map eraseSale (e_sales s)\<rparr>"

text \<open>
  Transactions of the examples: hash, type, asset, amount, timestamp and value in EUR.
\<close>

definition mkTx :: "string \<Rightarrow> txType \<Rightarrow> string \<Rightarrow> real \<Rightarrow> real \<Rightarrow> real \<Rightarrow> Transaction" where
  "mkTx h t a amt ts v = \<lparr>tx_hash = h, tx_type = t, tx_asset = a, tx_amount = amt,
     tx_timestamp = ts, tx_valueEur = v, tx_fee = 0, tx_feeEur = 0\<rparr>"

text \<open>
  Three lots costed 30, 10 and 20 per unit, acquired in that order, and a sale of two units.
\<close>

definition threeLots :: "Transaction list" where
  "threeLots = [mkTx ''h1'' Buy ''btc'' 1 1700000000000 30,
                mkTx ''h2'' Buy ''btc'' 1 1700000100000 10,
                mkTx ''h3'' Buy ''btc'' 1 1700000200000 20,
                mkTx ''h4'' Sell ''btc'' 2 1700000300000 100]"


text \<open>Two readings of the clock and the random generator.\<close>

definition entropyA :: entropy where
  "entropyA k = ''1700000000000-abcde''"

definition entropyB :: entropy where
  "entropyB k = ''1700000000001-vwxyz''"






text \<open>A purchase of one unit and two sales of one unit each.\<close>

definition sellTwice :: "Transaction list" where
  "sellTwice = [mkTx ''b1'' Buy ''eth'' 1 1700000000000 10,
                mkTx ''s1'' Sell ''eth'' 1 1700000100000 50,
                mkTx ''s2'' Sell ''eth'' 1 1700000200000 70]"



text \<open>A single purchase.\<close>

definition oneBuy :: "Transaction list" where
  "oneBuy = [mkTx ''b1'' Buy ''eth'' 1 1700000000000 10]"

text \<open>
  Holdings for the examples of unrealized gains: an asset with a cost basis, and one whose
  cost basis is unknown.
\<close>

definition someHoldings :: "(string \<times> UnrealizedEntry) list" where
  "someHoldings = [(''BTC'', \<lparr>ue_amount = 2, ue_costBasis = 100, ue_avgCost = 50\<rparr>),
                   (''SOL'', \<lparr>ue_amount = 3, ue_costBasis = 0, ue_avgCost = 0\<rparr>)]"

definition somePrices :: "string \<rightharpoonup> real" where
  "somePrices = [''BTC'' \<mapsto> 80, ''SOL'' \<mapsto> 20]"

section \<open>Auxiliary notions for the proofs\<close>

text \<open>
  Not part of the source: the lots with their remaining amounts forgotten (what a sale never
  changes), the effect of one productive iteration of the loop on the array and on
  \<open>lotsUsed\<close>, and the situation in which the loop visits each available lot once and
  finds it by its identifier.
\<close>

definition forgetRemaining :: "CostBasisLot list \<Rightarrow> CostBasisLot list" where
  "forgetRemaining lots = map (\<lambda>l. l\<lparr>lot_remainingAmount := 0\<rparr>) lots"

definition takeFrom :: "nat \<Rightarrow> real \<Rightarrow> CostBasisLot list \<Rightarrow> CostBasisLot list" where
  "takeFrom j a lots =
     lots[j := (lots ! j)\<lparr>lot_remainingAmount := fl64 (lot_remainingAmount (lots ! j) - a)\<rparr>]"

definition lotUse :: "CostBasisLot \<Rightarrow> real \<Rightarrow> LotUse" where
  "lotUse lot a = \<lparr>use_lotId = lot_id lot, use_amountUsed = a,
     use_costPerUnit = lot_costPerUnit lot, use_cost = fl64 (a * lot_costPerUnit lot)\<rparr>"

definition wellIndexed :: "nat list \<Rightarrow> CostBasisLot list \<Rightarrow> bool" where
  "wellIndexed idx lots = (distinct (map lot_id lots) \<and> distinct idx \<and>
     (\<forall>i\<in>set idx. i < length lots \<and> 0 < lot_remainingAmount (lots ! i)))"

text \<open>
  The lot that an acquisition creates when \<open>k\<close> lots exist already, the result of the loop
  of a sale, the entry a sale adds to \<open>sales\<close>, and the shape of \<open>lotsByAsset\<close>: its keys
  are distinct, every asset with lots is a key, and the lots under a key are of that asset.
\<close>

definition newLot :: "entropy \<Rightarrow> Transaction \<Rightarrow> nat \<Rightarrow> CostBasisLot" where
  "newLot env tx k =
     \<lparr>lot_id = tx_hash tx @ ''-'' @ env k,
      lot_asset = toUpperCase (tx_asset tx), lot_amount = tx_amount tx,
      lot_remainingAmount = tx_amount tx,
      lot_costPerUnit = (if tx_amount tx > 0 then fl64 (tx_valueEur tx / tx_amount tx) else 0),
      lot_totalCost = tx_valueEur tx, lot_timestamp = tx_timestamp tx,
      lot_txHash = tx_hash tx\<rparr>"

definition sellOutcome :: "CostBasisMethod \<Rightarrow> CostBasisLot list \<Rightarrow> Transaction
    \<Rightarrow> CostBasisLot list \<times> real \<times> real \<times> LotUse list" where
  "sellOutcome m lots tx = consumeLots (getLotsForMethod lots m) lots (tx_amount tx) 0 []"

definition saleOf :: "Transaction \<Rightarrow> real \<Rightarrow> LotUse list \<Rightarrow> SaleResult" where
  "saleOf tx c used = \<lparr>sale_transaction = tx, sale_proceeds = tx_valueEur tx,
     sale_costBasis = c, sale_gainLoss = fl64 (tx_valueEur tx - c), sale_lotsUsed = used\<rparr>"

definition engineInv :: "engine \<Rightarrow> bool" where
  "engineInv s = (distinct (e_keys s)
     \<and> (\<forall>a. e_lotsByAsset s a \<noteq> [] \<longrightarrow> a \<in> set (e_keys s))
     \<and> (\<forall>a. \<forall>l\<in>set (e_lotsByAsset s a). lot_asset l = a))"

section \<open>Properties of the rounding\<close>

declare scaleUp.simps [simp del] scaleDown.simps [simp del]

lemma pow2_pos [simp]: "0 < pow2 e"
  by (simp add: pow2_def)

lemma pow2_nonzero [simp]: "pow2 e \<noteq> 0"
  by (simp add: pow2_def)

lemma pow2_nonneg [simp]: "0 \<le> pow2 e"
  by (simp add: pow2_def)

lemma pow2_not_le [simp]: "\<not> pow2 e \<le> 0"
  by (simp add: pow2_def not_le)

lemma pow2_powi: "pow2 e = 2 powi e"
  by (simp add: pow2_def power_int_def field_simps)

lemma pow2_add: "pow2 (a + b) = pow2 a * pow2 b"
  by (simp add: pow2_powi power_int_add)

lemma pow2_0 [simp]: "pow2 0 = 1"
  by (simp add: pow2_def)

lemma pow2_1 [simp]: "pow2 1 = 2"
  by (simp add: pow2_def)

lemma pow2_pred: "2 * pow2 (e - 1) = pow2 e"
  using pow2_add [of 1 "e - 1"] by simp

lemma pow2_succ: "pow2 (e + 1) = 2 * pow2 e"
  using pow2_add [of 1 e] by (simp add: add.commute)

lemma pow2_mono: "a \<le> b \<Longrightarrow> pow2 a \<le> pow2 b"
  by (simp add: pow2_powi power_int_increasing)

lemma pow2_nat: "0 \<le> e \<Longrightarrow> pow2 e = of_int (2 ^ nat e)"
  by (simp add: pow2_def)

lemma roundHalfEven_int [simp]: "roundHalfEven (of_int k) = k"
  by (simp add: roundHalfEven_def)

lemma roundHalfEven_numeral [simp]: "roundHalfEven (numeral n) = numeral n"
  using roundHalfEven_int [of "numeral n"] by simp

lemma roundHalfEven_bounds: "\<lfloor>x\<rfloor> \<le> roundHalfEven x" "roundHalfEven x \<le> \<lfloor>x\<rfloor> + 1"
  by (simp_all add: roundHalfEven_def Let_def)

lemma roundHalfEven_mono: "x \<le> y \<Longrightarrow> roundHalfEven x \<le> roundHalfEven y"
proof -
  assume le: "x \<le> y"
  then have fl: "\<lfloor>x\<rfloor> \<le> \<lfloor>y\<rfloor>" by (rule floor_mono)
  show ?thesis
  proof (cases "\<lfloor>x\<rfloor> = \<lfloor>y\<rfloor>")
    case True
    with le show ?thesis by (auto simp: roundHalfEven_def Let_def)
  next
    case False
    with fl have "\<lfloor>x\<rfloor> + 1 \<le> \<lfloor>y\<rfloor>" by simp
    with roundHalfEven_bounds(2) [of x] roundHalfEven_bounds(1) [of y] show ?thesis by linarith
  qed
qed

lemma scaleUp_spec:
  "m < 2 ^ 53 \<Longrightarrow> - 1074 \<le> e \<Longrightarrow> scaleUp m e = (m', e') \<Longrightarrow>
   m' * pow2 e' = m * pow2 e \<and> - 1074 \<le> e' \<and> e' \<le> e \<and> m' < 2 ^ 53 \<and>
   (- 1074 < e' \<longrightarrow> 2 ^ 52 \<le> m')"
proof (induction m e rule: scaleUp.induct)
  case (1 m e)
  show ?case
  proof (cases "m < 2 ^ 52 \<and> - 1074 < e")
    case True
    with "1.prems"(3) have rec: "scaleUp (2 * m) (e - 1) = (m', e')"
      by (simp add: scaleUp.simps [of m e])
    from True have "2 * m < 2 ^ 53" "- 1074 \<le> e - 1" by simp_all
    from "1.IH" [OF True this rec]
    have ih: "m' * pow2 e' = 2 * m * pow2 (e - 1)" "- 1074 \<le> e'" "e' \<le> e - 1" "m' < 2 ^ 53"
      "- 1074 < e' \<longrightarrow> 2 ^ 52 \<le> m'" by blast+
    have "2 * m * pow2 (e - 1) = m * (2 * pow2 (e - 1))" by simp
    also have "\<dots> = m * pow2 e" by (simp only: pow2_pred)
    finally show ?thesis using ih by simp
  next
    case False
    with "1.prems" show ?thesis by (auto simp: scaleUp.simps [of m e])
  qed
qed

lemma scaleDown_spec:
  "2 ^ 52 \<le> m \<Longrightarrow> e \<le> 971 \<Longrightarrow> scaleDown m e = (m', e') \<Longrightarrow>
   m' * pow2 e' = m * pow2 e \<and> e \<le> e' \<and> e' \<le> 971 \<and> 2 ^ 52 \<le> m' \<and>
   (e' < 971 \<longrightarrow> m' < 2 ^ 53)"
proof (induction m e rule: scaleDown.induct)
  case (1 m e)
  show ?case
  proof (cases "2 ^ 53 \<le> m \<and> e < 971")
    case True
    with "1.prems"(3) have rec: "scaleDown (m / 2) (e + 1) = (m', e')"
      by (simp add: scaleDown.simps [of m e])
    from True have "2 ^ 52 \<le> m / 2" "e + 1 \<le> 971" by simp_all
    from "1.IH" [OF True this rec]
    have ih: "m' * pow2 e' = m / 2 * pow2 (e + 1)" "e + 1 \<le> e'" "e' \<le> 971" "2 ^ 52 \<le> m'"
      "e' < 971 \<longrightarrow> m' < 2 ^ 53" by blast+
    have "m / 2 * pow2 (e + 1) = m * pow2 e" unfolding pow2_succ by simp
    with ih(1) have "m' * pow2 e' = m * pow2 e" by (simp only:)
    with ih show ?thesis by simp
  next
    case False
    with "1.prems" show ?thesis by (auto simp: scaleDown.simps [of m e])
  qed
qed

lemma normalize64_spec:
  assumes "normalize64 x = (m, e)"
  shows "m * pow2 e = x" "- 1074 \<le> e" "e \<le> 971" "- 1074 < e \<Longrightarrow> 2 ^ 52 \<le> m"
    "e < 971 \<Longrightarrow> m < 2 ^ 53"
proof -
  have "m * pow2 e = x \<and> - 1074 \<le> e \<and> e \<le> 971 \<and> (- 1074 < e \<longrightarrow> 2 ^ 52 \<le> m)
     \<and> (e < 971 \<longrightarrow> m < 2 ^ 53)"
  proof (cases "x < 2 ^ 52")
    case True
    with assms have "scaleUp x 0 = (m, e)" by (simp add: normalize64_def)
    from scaleUp_spec [OF _ _ this] True show ?thesis by simp
  next
    case False
    with assms have "scaleDown x 0 = (m, e)" by (simp add: normalize64_def)
    from scaleDown_spec [OF _ _ this] False show ?thesis by simp
  qed
  then show "m * pow2 e = x" "- 1074 \<le> e" "e \<le> 971" "- 1074 < e \<Longrightarrow> 2 ^ 52 \<le> m"
    "e < 971 \<Longrightarrow> m < 2 ^ 53" by simp_all
qed

text \<open>Every double is its own rounding.\<close>

lemma magnitude64_exact:
  assumes "0 \<le> k" "k \<le> 2 ^ 53 \<or> 971 \<le> j" "- 1074 \<le> j"
  shows "magnitude64 (of_int k * pow2 j) = of_int k * pow2 j"
proof -
  obtain m e where n: "normalize64 (of_int k * pow2 j) = (m, e)" by (cases "normalize64 (of_int k * pow2 j)")
  note sp = normalize64_spec [OF n]
  have "\<exists>i. m = of_int i"
  proof (cases "e \<le> j")
    case True
    have "pow2 j = pow2 (j - e) * pow2 e" using pow2_add [of "j - e" e] by simp
    with sp(1) have "m * pow2 e = of_int k * pow2 (j - e) * pow2 e" by simp
    then have "m = of_int k * pow2 (j - e)" by simp
    also have "\<dots> = of_int (k * 2 ^ nat (j - e))" using True by (simp add: pow2_nat)
    finally show ?thesis by blast
  next
    case False
    then have lt: "j + 1 \<le> e" and "- 1074 < e" using assms(3) by simp_all
    with sp(4) have ge: "2 ^ 52 \<le> m" by simp
    from False sp(3) assms(2) have k: "k \<le> 2 ^ 53" by simp
    have "pow2 e = pow2 (e - j) * pow2 j" using pow2_add [of "e - j" j] by simp
    with sp(1) have "m * pow2 (e - j) * pow2 j = of_int k * pow2 j" by simp
    then have eq: "m * pow2 (e - j) = of_int k" by simp
    have "pow2 1 \<le> pow2 (e - j)" using lt by (intro pow2_mono) simp
    then have "2 \<le> pow2 (e - j)" by simp
    with ge have "m * 2 \<le> m * pow2 (e - j)" by (intro mult_left_mono) simp_all
    moreover have "(of_int k :: real) \<le> 2 ^ 53"
      using k by (metis of_int_le_iff of_int_numeral of_int_power)
    ultimately have "m \<le> 2 ^ 52" using eq by simp
    with ge have "m = of_int (2 ^ 52)" by simp
    then show ?thesis by blast
  qed
  then obtain i where "m = of_int i" by blast
  with sp(1) n show ?thesis by (simp add: magnitude64_def)
qed

lemma magnitude64_form:
  assumes "0 \<le> x"
  shows "\<exists>k j. magnitude64 x = of_int k * pow2 j \<and> 0 \<le> k \<and> (k \<le> 2 ^ 53 \<or> 971 \<le> j)
     \<and> - 1074 \<le> j"
proof -
  obtain m e where n: "normalize64 x = (m, e)" by (cases "normalize64 x")
  note sp = normalize64_spec [OF n]
  from sp(1) assms have "0 \<le> m * pow2 e" by simp
  then have m: "0 \<le> m" by (simp add: zero_le_mult_iff)
  then have "0 \<le> \<lfloor>m\<rfloor>" by simp
  with roundHalfEven_bounds(1) [of m] have k: "0 \<le> roundHalfEven m" by linarith
  have "roundHalfEven m \<le> 2 ^ 53 \<or> 971 \<le> e"
  proof (cases "e < 971")
    case True
    with sp(5) have "m \<le> of_int (2 ^ 53)" by simp
    from roundHalfEven_mono [OF this] show ?thesis by simp
  next
    case False
    then show ?thesis by simp
  qed
  with k sp(2) n show ?thesis by (auto simp: magnitude64_def)
qed

lemma magnitude64_nonneg: "0 \<le> x \<Longrightarrow> 0 \<le> magnitude64 x"
  using magnitude64_form [of x] by auto

lemma magnitude64_idem: "0 \<le> x \<Longrightarrow> magnitude64 (magnitude64 x) = magnitude64 x"
  using magnitude64_form [of x] magnitude64_exact by auto

lemma magnitude64_mono:
  assumes "0 \<le> x" "x \<le> y"
  shows "magnitude64 x \<le> magnitude64 y"
proof -
  obtain m e where nx: "normalize64 x = (m, e)" by (cases "normalize64 x")
  obtain n f where ny: "normalize64 y = (n, f)" by (cases "normalize64 y")
  note sx = normalize64_spec [OF nx]
  note sy = normalize64_spec [OF ny]
  have ef: "e \<le> f"
  proof (rule ccontr)
    assume "\<not> e \<le> f"
    then have lt: "f + 1 \<le> e" by simp
    with sy(2) sx(3) have "- 1074 < e" "f < 971" by simp_all
    with sx(4) sy(5) have m: "2 ^ 52 \<le> m" and n: "n < 2 ^ 53" by simp_all
    have "y = n * pow2 f" using sy(1) by simp
    also have "\<dots> < 2 ^ 53 * pow2 f" using n by simp
    also have "\<dots> = 2 ^ 52 * pow2 (f + 1)" by (simp add: pow2_succ)
    also have "\<dots> \<le> 2 ^ 52 * pow2 e" using pow2_mono [OF lt] by simp
    also have "\<dots> \<le> m * pow2 e" using m by simp
    also have "\<dots> = x" using sx(1) by simp
    finally show False using assms(2) by simp
  qed
  show ?thesis
  proof (cases "e = f")
    case True
    with sx(1) sy(1) assms(2) have "m * pow2 f \<le> n * pow2 f" by simp
    then have "m \<le> n" by simp
    from roundHalfEven_mono [OF this] True nx ny show ?thesis
      by (simp add: magnitude64_def)
  next
    case False
    with ef have lt: "e + 1 \<le> f" by simp
    with sx(2) sy(3) have "e < 971" "- 1074 < f" by simp_all
    with sx(5) sy(4) have m: "m \<le> of_int (2 ^ 53)" and n: "of_int (2 ^ 52) \<le> n" by simp_all
    from roundHalfEven_mono [OF m] have "roundHalfEven m \<le> 2 ^ 53" by simp
    then have "(of_int (roundHalfEven m) :: real) \<le> 2 ^ 53"
      by (metis of_int_le_iff of_int_numeral of_int_power)
    then have "of_int (roundHalfEven m) * pow2 e \<le> 2 ^ 53 * pow2 e" by simp
    also have "\<dots> = 2 ^ 52 * pow2 (e + 1)" by (simp add: pow2_succ)
    also have "\<dots> \<le> 2 ^ 52 * pow2 f" using pow2_mono [OF lt] by simp
    also have "\<dots> \<le> of_int (roundHalfEven n) * pow2 f"
    proof -
      from roundHalfEven_mono [OF n] have "2 ^ 52 \<le> roundHalfEven n" by simp
      then have "(2 ^ 52 :: real) \<le> of_int (roundHalfEven n)"
        by (metis of_int_le_iff of_int_numeral of_int_power)
      then show ?thesis by simp
    qed
    finally show ?thesis using nx ny by (simp add: magnitude64_def)
  qed
qed

lemma magnitude64_0: "magnitude64 0 = 0"
  using magnitude64_exact [of 0 0] by simp

lemma fl64_0 [simp]: "fl64 0 = 0"
  by (simp add: fl64_def magnitude64_0)

lemma fl64_nonneg: "0 \<le> x \<Longrightarrow> 0 \<le> fl64 x"
  by (simp add: fl64_def magnitude64_nonneg)

lemma fl64_nonpos: "x \<le> 0 \<Longrightarrow> fl64 x \<le> 0"
  using magnitude64_nonneg [of "- x"] by (auto simp: fl64_def magnitude64_0)

lemma fl64_mono: "x \<le> y \<Longrightarrow> fl64 x \<le> fl64 y"
proof -
  assume le: "x \<le> y"
  consider "0 \<le> x" | "x < 0" "0 \<le> y" | "y < 0" by linarith
  then show ?thesis
  proof cases
    case 1
    with le magnitude64_mono [of x y] show ?thesis by (simp add: fl64_def)
  next
    case 2
    with magnitude64_nonneg [of "- x"] magnitude64_nonneg [of y] show ?thesis
      by (simp add: fl64_def)
  next
    case 3
    with le magnitude64_mono [of "- y" "- x"] show ?thesis by (simp add: fl64_def)
  qed
qed

lemma fl64_exact:
  assumes "\<bar>k\<bar> \<le> 2 ^ 53" "- 1074 \<le> j"
  shows "fl64 (of_int k * pow2 j) = of_int k * pow2 j"
proof (cases "0 \<le> k")
  case True
  then have "\<not> of_int k * pow2 j < 0" by (simp add: not_less zero_le_mult_iff)
  with True assms magnitude64_exact [of k j] show ?thesis by (simp add: fl64_def)
next
  case False
  then have "of_int k * pow2 j < 0" by (simp add: mult_neg_pos)
  moreover have "magnitude64 (of_int (- k) * pow2 j) = of_int (- k) * pow2 j"
    using False assms by (intro magnitude64_exact) simp_all
  ultimately show ?thesis by (simp add: fl64_def)
qed

lemma fl64_int: "x \<in> \<int> \<Longrightarrow> \<bar>x\<bar> \<le> 2 ^ 53 \<Longrightarrow> fl64 x = x"
proof -
  assume "x \<in> \<int>" and b: "\<bar>x\<bar> \<le> 2 ^ 53"
  then obtain k where k: "x = of_int k" by (auto elim: Ints_cases)
  with b have "\<bar>k\<bar> \<le> 2 ^ 53" 
    by (metis of_int_abs of_int_le_iff of_int_numeral of_int_power)
  from fl64_exact [OF this, of 0] k show ?thesis by simp
qed

lemma fl64_idem [simp]: "fl64 (fl64 x) = fl64 x"
proof (cases "x < 0")
  case True
  then have nn: "0 \<le> magnitude64 (- x)" by (intro magnitude64_nonneg) simp
  show ?thesis
  proof (cases "magnitude64 (- x) = 0")
    case z: True
    with True show ?thesis by (simp add: fl64_def magnitude64_0)
  next
    case False
    with nn have "- magnitude64 (- x) < 0" by simp
    with True magnitude64_idem [of "- x"] show ?thesis by (simp add: fl64_def)
  qed
next
  case False
  then have "\<not> magnitude64 x < 0" using magnitude64_nonneg [of x] by simp
  with False magnitude64_idem [of x] show ?thesis by (simp add: fl64_def)
qed


section \<open>Properties of the cost-basis engine\<close>

subsection \<open>The loop over the ordered lots\<close>

lemma findIndex_Some: "findIndex P xs = Some j \<Longrightarrow> j < length xs \<and> P (xs ! j)"
proof (induction xs arbitrary: j)
  case Nil
  then show ?case by simp
next
  case (Cons x xs)
  show ?case
  proof (cases "P x")
    case True
    with Cons.prems show ?thesis by simp
  next
    case False
    with Cons.prems obtain k where "findIndex P xs = Some k" "j = Suc k"
      by auto
    with Cons.IH show ?thesis by simp
  qed
qed

lemma findIndex_None: "findIndex P xs = None \<Longrightarrow> x \<in> set xs \<Longrightarrow> \<not> P x"
  by (induction xs) (auto split: if_splits)

lemma findIndex_distinct:
  "distinct (map f xs) \<Longrightarrow> i < length xs \<Longrightarrow> findIndex (\<lambda>l. f l = f (xs ! i)) xs = Some i"
proof (induction xs arbitrary: i)
  case Nil
  then show ?case by simp
next
  case (Cons x xs)
  show ?case
  proof (cases i)
    case 0
    then show ?thesis by simp
  next
    case (Suc k)
    with Cons.prems have "k < length xs" "xs ! k \<in> set xs" by auto
    with Cons.prems have "f x \<noteq> f (xs ! k)" by auto
    moreover have "findIndex (\<lambda>l. f l = f (xs ! k)) xs = Some k"
      using Cons.IH Cons.prems \<open>k < length xs\<close> by simp
    ultimately show ?thesis using Suc by simp
  qed
qed

lemma forgetRemaining_update:
  "forgetRemaining (lots[j := (lots ! j)\<lparr>lot_remainingAmount := v\<rparr>]) = forgetRemaining lots"
proof (cases "j < length lots")
  case True
  then show ?thesis
    by (simp add: forgetRemaining_def map_update list_eq_iff_nth_eq nth_list_update)
next
  case False
  then have "lots[j := (lots ! j)\<lparr>lot_remainingAmount := v\<rparr>] = lots"
    by (intro list_update_beyond) simp
  then show ?thesis by simp
qed

lemma forgetRemaining_length: "forgetRemaining a = forgetRemaining b \<Longrightarrow> length a = length b"
  unfolding forgetRemaining_def by (metis length_map)

lemma forgetRemaining_nth:
  assumes "forgetRemaining a = forgetRemaining b" "i < length b"
  shows "lot_id (a ! i) = lot_id (b ! i)" "lot_costPerUnit (a ! i) = lot_costPerUnit (b ! i)"
    "lot_timestamp (a ! i) = lot_timestamp (b ! i)" "lot_asset (a ! i) = lot_asset (b ! i)"
proof -
  have len: "length a = length b" using assms(1) by (rule forgetRemaining_length)
  have "forgetRemaining a ! i = forgetRemaining b ! i" using assms(1) by simp
  then have eq: "(a ! i)\<lparr>lot_remainingAmount := 0\<rparr> = (b ! i)\<lparr>lot_remainingAmount := 0\<rparr>"
    using assms(2) len by (simp add: forgetRemaining_def)
  show "lot_id (a ! i) = lot_id (b ! i)"
    using arg_cong [OF eq, of lot_id] by simp
  show "lot_costPerUnit (a ! i) = lot_costPerUnit (b ! i)"
    using arg_cong [OF eq, of lot_costPerUnit] by simp
  show "lot_timestamp (a ! i) = lot_timestamp (b ! i)"
    using arg_cong [OF eq, of lot_timestamp] by simp
  show "lot_asset (a ! i) = lot_asset (b ! i)"
    using arg_cong [OF eq, of lot_asset] by simp
qed

lemma forgetRemaining_ids: "forgetRemaining a = forgetRemaining b \<Longrightarrow> map lot_id a = map lot_id b"
proof -
  assume eq: "forgetRemaining a = forgetRemaining b"
  have "map lot_id (forgetRemaining xs) = map lot_id xs" for xs
    by (simp add: forgetRemaining_def)
  then show ?thesis using eq by metis
qed

lemma consumeLots_frame:
  "consumeLots idx lots r c used = (lots', r', c', used') \<Longrightarrow>
     forgetRemaining lots' = forgetRemaining lots"
proof (induction idx arbitrary: lots r c used)
  case Nil
  then show ?case by simp
next
  case (Cons i rest)
  show ?case
  proof (cases "r \<le> 0")
    case True
    with Cons.prems show ?thesis by simp
  next
    case pos: False
    show ?thesis
    proof (cases "lot_remainingAmount (lots ! i) \<le> 0")
      case True
      with pos Cons.prems Cons.IH show ?thesis by simp
    next
      case False
      with pos Cons.prems Cons.IH show ?thesis
        by (auto simp: Let_def forgetRemaining_update split: option.splits)
    qed
  qed
qed

lemma findIndex_found:
  assumes "i < length xs"
  shows "\<exists>j. findIndex (\<lambda>l. f l = f (xs ! i)) xs = Some j"
proof (cases "findIndex (\<lambda>l. f l = f (xs ! i)) xs")
  case None
  from findIndex_None [OF None, of "xs ! i"] assms show ?thesis by simp
next
  case (Some j)
  then show ?thesis by blast
qed

text \<open>One productive iteration of the loop, unfolded.\<close>

lemma consumeLots_step:
  assumes "0 < r" and "0 < lot_remainingAmount (lots ! i)" and "i < length lots"
    and "a = min (lot_remainingAmount (lots ! i)) r"
  shows "\<exists>j. j < length lots \<and> lot_id (lots ! j) = lot_id (lots ! i) \<and>
     findIndex (\<lambda>l. lot_id l = lot_id (lots ! i)) lots = Some j \<and>
     consumeLots (i # rest) lots r c used =
       consumeLots rest (takeFrom j a lots) (fl64 (r - a))
         (fl64 (c + fl64 (a * lot_costPerUnit (lots ! i)))) (used @ [lotUse (lots ! i) a])"
proof -
  from findIndex_found [OF assms(3), of lot_id]
  obtain j where j: "findIndex (\<lambda>l. lot_id l = lot_id (lots ! i)) lots = Some j" by blast
  from findIndex_Some [OF j] have "j < length lots" "lot_id (lots ! j) = lot_id (lots ! i)"
    by simp_all
  with j assms show ?thesis by (simp add: Let_def takeFrom_def lotUse_def)
qed

lemma takeFrom_length [simp]: "length (takeFrom j a lots) = length lots"
  by (simp add: takeFrom_def)

lemma takeFrom_forget [simp]: "forgetRemaining (takeFrom j a lots) = forgetRemaining lots"
  by (simp add: takeFrom_def forgetRemaining_update)

lemma takeFrom_nth_other: "k \<noteq> j \<Longrightarrow> takeFrom j a lots ! k = lots ! k"
  by (simp add: takeFrom_def)


lemma lotUse_sel [simp]:
  "use_lotId (lotUse lot a) = lot_id lot" "use_amountUsed (lotUse lot a) = a"
  "use_costPerUnit (lotUse lot a) = lot_costPerUnit lot"
  "use_cost (lotUse lot a) = fl64 (a * lot_costPerUnit lot)"
  by (simp_all add: lotUse_def)


lemma consumeLots_break:
  assumes "r \<le> 0"
  shows "consumeLots idx lots r c used = (lots, r, c, used)"
  using assms by (cases idx) simp_all

lemma consumeLots_Nil: "consumeLots [] lots r c used = (lots, r, c, used)"
  by simp

declare consumeLots.simps [simp del]

lemma takeFrom_ids [simp]: "map lot_id (takeFrom j a lots) = map lot_id lots"
  by (rule forgetRemaining_ids) simp

lemma wellIndexed_nth_rest:
  assumes "wellIndexed (i # rest) lots" and "k \<in> set rest"
  shows "takeFrom i a lots ! k = lots ! k"
proof -
  from assms have "k \<noteq> i" by (auto simp: wellIndexed_def)
  then show ?thesis by (rule takeFrom_nth_other)
qed

lemma wellIndexed_step:
  assumes "wellIndexed (i # rest) lots"
  shows "wellIndexed rest (takeFrom i a lots)"
  using assms wellIndexed_nth_rest [OF assms, of _ a] unfolding wellIndexed_def
  by simp


lemma consumeLots_step_distinct:
  assumes "wellIndexed (i # rest) lots" and "0 < r"
    and "a = min (lot_remainingAmount (lots ! i)) r"
  shows "consumeLots (i # rest) lots r c used =
       consumeLots rest (takeFrom i a lots) (fl64 (r - a))
         (fl64 (c + fl64 (a * lot_costPerUnit (lots ! i)))) (used @ [lotUse (lots ! i) a])"
proof -
  from assms(1) have d: "distinct (map lot_id lots)" and i: "i < length lots"
    and p: "0 < lot_remainingAmount (lots ! i)"
    by (simp_all add: wellIndexed_def)
  from consumeLots_step [OF assms(2) p i assms(3), of rest c used]
    findIndex_distinct [OF d i]
  show ?thesis by auto
qed


lemma consumeLots_outside:
  "wellIndexed idx lots \<Longrightarrow> k \<notin> set idx \<Longrightarrow>
   consumeLots idx lots r c used = (lots', r', c', used') \<Longrightarrow> lots' ! k = lots ! k"
proof (induction idx arbitrary: lots r c used)
  case Nil
  then show ?case by (simp add: consumeLots_Nil)
next
  case (Cons i rest)
  show ?case
  proof (cases "r \<le> 0")
    case True
    with Cons.prems show ?thesis by (simp add: consumeLots_break)
  next
    case False
    define a where "a = min (lot_remainingAmount (lots ! i)) r"
    from False have pos: "0 < r" by simp
    note eq = consumeLots_step_distinct [OF Cons.prems(1) pos a_def, of c used]
    from Cons.prems(2) have "k \<notin> set rest" "k \<noteq> i" by auto
    with Cons.IH [OF wellIndexed_step [OF Cons.prems(1)] _ Cons.prems(3) [unfolded eq]]
    show ?thesis by (simp add: takeFrom_nth_other)
  qed
qed



subsection \<open>The amounts a sale takes\<close>






subsection \<open>Numbers on a grid\<close>













subsection \<open>The ordered lots\<close>


lemma getLots_mset:
  "mset (getLotsForMethod lots m)
     = mset (filter (\<lambda>i. 0 < lot_remainingAmount (lots ! i)) [0..<length lots])"
  by (cases m) (simp_all add: getLotsForMethod_def)

lemma getLots_set:
  "set (getLotsForMethod lots m) = {i. i < length lots \<and> 0 < lot_remainingAmount (lots ! i)}"
proof -
  have "set (getLotsForMethod lots m)
      = set (filter (\<lambda>i. 0 < lot_remainingAmount (lots ! i)) [0..<length lots])"
    using getLots_mset [of lots m] by (rule mset_eq_setD)
  then show ?thesis by auto
qed

lemma getLots_distinct: "distinct (getLotsForMethod lots m)"
proof -
  have "distinct (filter (\<lambda>i. 0 < lot_remainingAmount (lots ! i)) [0..<length lots])" by simp
  then show ?thesis using getLots_mset [of lots m] by (metis mset_eq_imp_distinct_iff)
qed


lemma getLots_wellIndexed:
  "distinct (map lot_id lots) \<Longrightarrow> wellIndexed (getLotsForMethod lots m) lots"
  by (simp add: wellIndexed_def getLots_distinct getLots_set)









subsection \<open>Totals\<close>

lemma foldl_nonneg:
  fixes f :: "'a \<Rightarrow> real"
  assumes "\<And>x. 0 \<le> f x" and "0 \<le> a"
  shows "0 \<le> foldl (\<lambda>sum x. fl64 (sum + f x)) a xs"
  using assms(2)
proof (induction xs arbitrary: a)
  case Nil
  then show ?case by simp
next
  case (Cons x xs)
  have "0 \<le> fl64 (a + f x)" using Cons.prems assms(1) [of x] by (intro fl64_nonneg) simp
  from Cons.IH [OF this] show ?case by simp
qed

lemma processTx_totals_nonneg:
  assumes "0 \<le> e_totalGains s" and "0 \<le> e_totalLosses s"
  shows "0 \<le> e_totalGains (processTx env m tx s) \<and> 0 \<le> e_totalLosses (processTx env m tx s)"
  using assms by (auto simp: processTx_def Let_def fl64_nonneg split: prod.splits)

lemma fold_totals_nonneg:
  assumes "0 \<le> e_totalGains s" and "0 \<le> e_totalLosses s"
  shows "0 \<le> e_totalGains (fold (processTx env m) txs s)
       \<and> 0 \<le> e_totalLosses (fold (processTx env m) txs s)"
  using assms
proof (induction txs arbitrary: s)
  case Nil
  then show ?case by simp
next
  case (Cons tx txs)
  from processTx_totals_nonneg [OF Cons.prems, of env m tx]
  show ?case using Cons.IH by simp
qed

lemmas engine_eval = calculateCostBasis_def sortedTx_def normalizeTx_def processTx_def
  initEngine_def isAcquisition_def toUpperCase_def upperChar_def getLotsForMethod_def finish_def
  Let_def consumeLots.simps mkTx_def ownKeys_def isArrayIndex_def isDigit_def unrealizedOf_def
  fl64_int

subsection \<open>Steps of the main loop\<close>


lemma sell_not_acquisition: "tx_type tx = Sell \<Longrightarrow> \<not> isAcquisition tx"
  by (simp add: isAcquisition_def)

lemma processTx_acq:
  assumes "isAcquisition tx"
  shows "processTx env m tx s =
    s\<lparr>e_keys := (if toUpperCase (tx_asset tx) \<in> set (e_keys s) then e_keys s
                  else e_keys s @ [toUpperCase (tx_asset tx)]),
      e_lotsByAsset := (e_lotsByAsset s)(toUpperCase (tx_asset tx) :=
         e_lotsByAsset s (toUpperCase (tx_asset tx)) @ [newLot env tx (e_created s)]),
      e_created := Suc (e_created s)\<rparr>"
  using assms by (simp add: processTx_def Let_def newLot_def)

lemma processTx_sell:
  assumes "tx_type tx = Sell"
    and "sellOutcome m (e_lotsByAsset s (toUpperCase (tx_asset tx))) tx = (lots', r', c', used')"
  shows "processTx env m tx s =
    s\<lparr>e_lotsByAsset := (e_lotsByAsset s)(toUpperCase (tx_asset tx) := lots'),
      e_sales := e_sales s @ [saleOf tx c' used'],
      e_totalGains := (if fl64 (tx_valueEur tx - c') > 0
                       then fl64 (e_totalGains s + fl64 (tx_valueEur tx - c'))
                       else e_totalGains s),
      e_totalLosses := (if fl64 (tx_valueEur tx - c') > 0 then e_totalLosses s
                        else fl64 (e_totalLosses s + \<bar>fl64 (tx_valueEur tx - c')\<bar>))\<rparr>"
  using assms sell_not_acquisition [OF assms(1)]
  by (simp add: processTx_def Let_def sellOutcome_def saleOf_def)

lemma processTx_other:
  assumes "\<not> isAcquisition tx" and "tx_type tx \<noteq> Sell"
  shows "processTx env m tx s = s"
  using assms by (simp add: processTx_def)

lemma sellOutcome_cases:
  obtains lots' r' c' used' where "sellOutcome m lots tx = (lots', r', c', used')"
  by (metis prod_cases4)

text \<open>The three kinds of step.\<close>

lemma processTx_cases [case_names acq sell other]:
  assumes "isAcquisition tx \<Longrightarrow> P"
    and "\<And>lots' r' c' used'. tx_type tx = Sell \<Longrightarrow>
       sellOutcome m (e_lotsByAsset s (toUpperCase (tx_asset tx))) tx = (lots', r', c', used')
       \<Longrightarrow> P"
    and "\<not> isAcquisition tx \<Longrightarrow> tx_type tx \<noteq> Sell \<Longrightarrow> P"
  shows P
proof (cases "isAcquisition tx")
  case True
  then show ?thesis by (rule assms(1))
next
  case na: False
  show ?thesis
  proof (cases "tx_type tx = Sell")
    case True
    obtain lots' r' c' used' where
      "sellOutcome m (e_lotsByAsset s (toUpperCase (tx_asset tx))) tx = (lots', r', c', used')"
      by (rule sellOutcome_cases)
    with True show ?thesis by (rule assms(2))
  next
    case False
    with na show ?thesis by (rule assms(3))
  qed
qed

lemma sellOutcome_frame:
  "sellOutcome m lots tx = (lots', r', c', used') \<Longrightarrow> forgetRemaining lots' = forgetRemaining lots"
  unfolding sellOutcome_def by (rule consumeLots_frame)

lemma forgetRemaining_assets:
  "forgetRemaining a = forgetRemaining b \<Longrightarrow> map lot_asset a = map lot_asset b"
proof -
  assume eq: "forgetRemaining a = forgetRemaining b"
  have "map lot_asset (forgetRemaining xs) = map lot_asset xs" for xs
    by (simp add: forgetRemaining_def)
  then show ?thesis using eq by metis
qed

subsection \<open>Lots and sales are only added\<close>

lemma processTx_ids:
  "\<exists>ys. map lot_id (e_lotsByAsset (processTx env m tx s) a) = map lot_id (e_lotsByAsset s a) @ ys"
proof (cases rule: processTx_cases [where tx=tx and m=m and s=s])
  case acq
  then show ?thesis by (simp add: processTx_acq)
next
  case (sell lots' r' c' used')
  from forgetRemaining_ids [OF sellOutcome_frame [OF sell(2)]] sell
  show ?thesis by (simp add: processTx_sell)
next
  case other
  then show ?thesis by (simp add: processTx_other)
qed

lemma fold_ids:
  "\<exists>ys. map lot_id (e_lotsByAsset (fold (processTx env m) txs s) a)
        = map lot_id (e_lotsByAsset s a) @ ys"
proof (induction txs arbitrary: s)
  case Nil
  then show ?case by simp
next
  case (Cons tx txs)
  from Cons.IH [of "processTx env m tx s"] processTx_ids [of env m tx s a]
  show ?case by auto
qed

lemma fold_distinct_start:
  assumes "distinct (map lot_id (e_lotsByAsset (fold (processTx env m) txs s) a))"
  shows "distinct (map lot_id (e_lotsByAsset s a))"
  using assms fold_ids [of env m txs s a] by auto



subsection \<open>The shape of the dictionary of lots\<close>

lemma engineInv_init: "engineInv initEngine"
  by (simp add: engineInv_def initEngine_def)

lemma engineInv_step:
  assumes "engineInv s"
  shows "engineInv (processTx env m tx s)"
proof (cases rule: processTx_cases [where tx=tx and m=m and s=s])
  case acq
  with assms show ?thesis
    by (auto simp: processTx_acq engineInv_def newLot_def)
next
  case (sell lots' r' c' used')
  note fr = sellOutcome_frame [OF sell(2)]
  have len: "length lots' = length (e_lotsByAsset s (toUpperCase (tx_asset tx)))"
    using fr by (rule forgetRemaining_length)
  have "set (map lot_asset lots') = set (map lot_asset (e_lotsByAsset s (toUpperCase (tx_asset tx))))"
    using forgetRemaining_assets [OF fr] by simp
  then have as: "\<forall>l\<in>set lots'. lot_asset l = toUpperCase (tx_asset tx)"
    using assms unfolding engineInv_def by (metis (no_types, lifting) image_iff list.set_map)
  from len have ne: "lots' \<noteq> [] \<Longrightarrow> e_lotsByAsset s (toUpperCase (tx_asset tx)) \<noteq> []"
    by auto
  from assms as ne show ?thesis
    unfolding engineInv_def processTx_sell [OF sell] by simp
next
  case other
  with assms show ?thesis by (simp add: processTx_other)
qed

lemma engineInv_fold:
  "engineInv s \<Longrightarrow> engineInv (fold (processTx env m) txs s)"
  by (induction txs arbitrary: s) (simp_all add: engineInv_step)

lemma ownKeys_mset: "mset (ownKeys ks) = mset ks"
  by (simp add: ownKeys_def)

lemma ownKeys_set: "set (ownKeys ks) = set ks"
  using ownKeys_mset [of ks] by (rule mset_eq_setD)

lemma ownKeys_distinct: "distinct (ownKeys ks) = distinct ks"
  using ownKeys_mset [of ks] by (rule mset_eq_imp_distinct_iff)

lemma filter_concat_asset:
  assumes "distinct ks" and "\<forall>k. \<forall>l\<in>set (L k). lot_asset l = k"
  shows "filter (\<lambda>l. lot_asset l = a) (concat (map L ks)) = (if a \<in> set ks then L a else [])"
  using assms(1)
proof (induction ks)
  case Nil
  then show ?case by simp
next
  case (Cons k ks)
  show ?case
  proof (cases "k = a")
    case True
    have "filter (\<lambda>l. lot_asset l = a) (L a) = L a" using assms(2) by (simp add: filter_id_conv)
    with True Cons show ?thesis by simp
  next
    case False
    have "filter (\<lambda>l. lot_asset l = a) (L k) = []" using assms(2) False by (simp add: filter_empty_conv)
    with False Cons show ?thesis by simp
  qed
qed

lemma res_lots_of_asset:
  assumes "engineInv s"
  shows "filter (\<lambda>l. lot_asset l = a) (res_lots (finish s)) = e_lotsByAsset s a"
proof -
  from assms have d: "distinct (ownKeys (e_keys s))"
    and l: "\<forall>k. \<forall>l\<in>set (e_lotsByAsset s k). lot_asset l = k"
    and k: "a \<notin> set (e_keys s) \<Longrightarrow> e_lotsByAsset s a = []"
    by (auto simp: engineInv_def ownKeys_distinct)
  from filter_concat_asset [OF d l, of a] k show ?thesis
    by (auto simp: finish_def ownKeys_set)
qed


lemma res_lots_distinct:
  assumes "engineInv s" and "distinct (map lot_id (res_lots (finish s)))"
  shows "distinct (map lot_id (e_lotsByAsset s a))"
proof -
  have "distinct (map lot_id (filter (\<lambda>l. lot_asset l = a) (res_lots (finish s))))"
    using assms(2) by (rule distinct_map_filter)
  then show ?thesis by (simp add: res_lots_of_asset [OF assms(1)])
qed

subsection \<open>Conservation\<close>









lemma normalizeTx_sel [simp]:
  "tx_amount (normalizeTx tx) = tx_amount tx" "tx_asset (normalizeTx tx) = tx_asset tx"
  "tx_type (normalizeTx tx) = tx_type tx" "tx_valueEur (normalizeTx tx) = tx_valueEur tx"
  "tx_hash (normalizeTx tx) = tx_hash tx"
  "isAcquisition (normalizeTx tx) = isAcquisition tx"
  by (simp_all add: normalizeTx_def isAcquisition_def)







subsection \<open>Independence of the lot identifiers\<close>

lemma eraseLot_sel [simp]:
  "lot_remainingAmount (eraseLot l) = lot_remainingAmount l"
  "lot_costPerUnit (eraseLot l) = lot_costPerUnit l"
  "lot_timestamp (eraseLot l) = lot_timestamp l"
  "lot_asset (eraseLot l) = lot_asset l"
  by (simp_all add: eraseLot_def)

lemma erased_nth:
  assumes "map eraseLot a = map eraseLot b" and "i < length b"
  shows "lot_remainingAmount (a ! i) = lot_remainingAmount (b ! i)"
    and "lot_costPerUnit (a ! i) = lot_costPerUnit (b ! i)"
    and "lot_timestamp (a ! i) = lot_timestamp (b ! i)"
proof -
  have len: "length a = length b" using assms(1) by (metis length_map)
  have "map eraseLot a ! i = map eraseLot b ! i" using assms(1) by simp
  then have eq: "eraseLot (a ! i) = eraseLot (b ! i)" using assms(2) len by simp
  show "lot_remainingAmount (a ! i) = lot_remainingAmount (b ! i)"
    using arg_cong [OF eq, of lot_remainingAmount] by simp
  show "lot_costPerUnit (a ! i) = lot_costPerUnit (b ! i)"
    using arg_cong [OF eq, of lot_costPerUnit] by simp
  show "lot_timestamp (a ! i) = lot_timestamp (b ! i)"
    using arg_cong [OF eq, of lot_timestamp] by simp
qed

lemma insort_key_cong':
  assumes "f x = g x" and "\<forall>y\<in>set ys. f y = g y"
  shows "insort_key f x ys = insort_key g x ys"
  using assms by (induction ys) simp_all

lemma sort_key_cong':
  assumes "\<forall>x\<in>set xs. f x = g x"
  shows "sort_key f xs = sort_key g xs"
  using assms
proof (induction xs)
  case Nil
  then show ?case by simp
next
  case (Cons x xs)
  then have "sort_key f xs = sort_key g xs" by simp
  moreover have "insort_key f x (sort_key g xs) = insort_key g x (sort_key g xs)"
    using Cons.prems by (intro insort_key_cong') simp_all
  ultimately show ?case by simp
qed

lemma getLots_erased:
  assumes "map eraseLot a = map eraseLot b"
  shows "getLotsForMethod a m = getLotsForMethod b m"
proof -
  have len: "length a = length b" using assms by (metis length_map)
  have f: "filter (\<lambda>i. 0 < lot_remainingAmount (a ! i)) [0..<length a]
         = filter (\<lambda>i. 0 < lot_remainingAmount (b ! i)) [0..<length b]"
    unfolding len using erased_nth(1) [OF assms] by (intro filter_cong) simp_all
  have k: "\<forall>i\<in>set (filter (\<lambda>i. 0 < lot_remainingAmount (b ! i)) [0..<length b]).
      lot_timestamp (a ! i) = lot_timestamp (b ! i)
      \<and> lot_costPerUnit (a ! i) = lot_costPerUnit (b ! i)"
    using erased_nth(2,3) [OF assms] by simp
  have "sort_key (\<lambda>i. lot_timestamp (a ! i))
          (filter (\<lambda>i. 0 < lot_remainingAmount (b ! i)) [0..<length b])
      = sort_key (\<lambda>i. lot_timestamp (b ! i))
          (filter (\<lambda>i. 0 < lot_remainingAmount (b ! i)) [0..<length b])"
    and "sort_key (\<lambda>i. - lot_timestamp (a ! i))
          (filter (\<lambda>i. 0 < lot_remainingAmount (b ! i)) [0..<length b])
      = sort_key (\<lambda>i. - lot_timestamp (b ! i))
          (filter (\<lambda>i. 0 < lot_remainingAmount (b ! i)) [0..<length b])"
    and "sort_key (\<lambda>i. - lot_costPerUnit (a ! i))
          (filter (\<lambda>i. 0 < lot_remainingAmount (b ! i)) [0..<length b])
      = sort_key (\<lambda>i. - lot_costPerUnit (b ! i))
          (filter (\<lambda>i. 0 < lot_remainingAmount (b ! i)) [0..<length b])"
    using k by (intro sort_key_cong'; simp)+
  then show ?thesis
    unfolding getLotsForMethod_def Let_def f by (cases m) simp_all
qed

lemma eraseLot_update:
  "eraseLot (l\<lparr>lot_remainingAmount := v\<rparr>) = (eraseLot l)\<lparr>lot_remainingAmount := v\<rparr>"
  by (cases l) (simp add: eraseLot_def)

lemma eraseLot_takeFrom:
  assumes "i < length lots"
  shows "map eraseLot (takeFrom i a lots) = takeFrom i a (map eraseLot lots)"
  using assms by (simp add: takeFrom_def map_update eraseLot_update)

lemma eraseUse_lotUse:
  "eraseUse (lotUse l a) = \<lparr>use_lotId = [], use_amountUsed = a,
     use_costPerUnit = lot_costPerUnit l, use_cost = fl64 (a * lot_costPerUnit l)\<rparr>"
  by (simp add: eraseUse_def lotUse_def)

lemma consumeLots_erased:
  "wellIndexed idx lots1 \<Longrightarrow> wellIndexed idx lots2 \<Longrightarrow>
   map eraseLot lots1 = map eraseLot lots2 \<Longrightarrow> map eraseUse u1 = map eraseUse u2 \<Longrightarrow>
   consumeLots idx lots1 r c u1 = (l1, r1, c1, v1) \<Longrightarrow>
   consumeLots idx lots2 r c u2 = (l2, r2, c2, v2) \<Longrightarrow>
   map eraseLot l1 = map eraseLot l2 \<and> r1 = r2 \<and> c1 = c2 \<and> map eraseUse v1 = map eraseUse v2"
proof (induction idx arbitrary: lots1 lots2 r c u1 u2)
  case Nil
  then show ?case by (simp add: consumeLots_Nil)
next
  case (Cons i rest)
  show ?case
  proof (cases "r \<le> 0")
    case True
    with Cons.prems show ?thesis by (simp add: consumeLots_break)
  next
    case False
    then have pos: "0 < r" by simp
    from Cons.prems(1,2) have i: "i < length lots1" "i < length lots2"
      by (simp_all add: wellIndexed_def)
    define a where "a = min (lot_remainingAmount (lots1 ! i)) r"
    have a2: "a = min (lot_remainingAmount (lots2 ! i)) r"
      using erased_nth(1) [OF Cons.prems(3) i(2)] by (simp add: a_def)
    have cpu: "lot_costPerUnit (lots1 ! i) = lot_costPerUnit (lots2 ! i)"
      using erased_nth(2) [OF Cons.prems(3) i(2)] .
    note eq1 = consumeLots_step_distinct [OF Cons.prems(1) pos a_def, of c u1]
    note eq2 = consumeLots_step_distinct [OF Cons.prems(2) pos a2, of c u2]
    have e: "map eraseLot (takeFrom i a lots1) = map eraseLot (takeFrom i a lots2)"
      using i Cons.prems(3) by (simp add: eraseLot_takeFrom)
    have u: "map eraseUse (u1 @ [lotUse (lots1 ! i) a]) = map eraseUse (u2 @ [lotUse (lots2 ! i) a])"
      using Cons.prems(4) cpu by (simp add: eraseUse_lotUse)
    from Cons.IH [OF wellIndexed_step [OF Cons.prems(1)] wellIndexed_step [OF Cons.prems(2)]
        e u Cons.prems(5) [unfolded eq1] Cons.prems(6) [unfolded eq2 cpu [symmetric]]]
    show ?thesis .
  qed
qed

lemma eraseEngine_eq:
  "eraseEngine s1 = eraseEngine s2 \<longleftrightarrow>
     e_keys s1 = e_keys s2
     \<and> (\<forall>a. map eraseLot (e_lotsByAsset s1 a) = map eraseLot (e_lotsByAsset s2 a))
     \<and> map eraseSale (e_sales s1) = map eraseSale (e_sales s2)
     \<and> e_totalGains s1 = e_totalGains s2 \<and> e_totalLosses s1 = e_totalLosses s2
     \<and> e_created s1 = e_created s2"
  by (cases s1; cases s2) (auto simp: eraseEngine_def fun_eq_iff)

lemma step_erased:
  assumes eq: "eraseEngine s1 = eraseEngine s2"
    and d1: "distinct (map lot_id (e_lotsByAsset s1 (toUpperCase (tx_asset tx))))"
    and d2: "distinct (map lot_id (e_lotsByAsset s2 (toUpperCase (tx_asset tx))))"
  shows "eraseEngine (processTx env1 m tx s1) = eraseEngine (processTx env2 m tx s2)"
proof (cases "isAcquisition tx")
  case True
  have "eraseLot (newLot env1 tx k) = eraseLot (newLot env2 tx k)" for k
    by (simp add: newLot_def eraseLot_def)
  with eq show ?thesis
    unfolding eraseEngine_eq by (simp add: processTx_acq [OF True])
next
  case na: False
  show ?thesis
  proof (cases "tx_type tx = Sell")
    case True
    let ?a = "toUpperCase (tx_asset tx)"
    obtain l1 r1 c1 v1 where o1: "sellOutcome m (e_lotsByAsset s1 ?a) tx = (l1, r1, c1, v1)"
      by (rule sellOutcome_cases)
    obtain l2 r2 c2 v2 where o2: "sellOutcome m (e_lotsByAsset s2 ?a) tx = (l2, r2, c2, v2)"
      by (rule sellOutcome_cases)
    from eq have le: "map eraseLot (e_lotsByAsset s1 ?a) = map eraseLot (e_lotsByAsset s2 ?a)"
      unfolding eraseEngine_eq by simp
    note g = getLots_erased [OF le, of m]
    note w1 = getLots_wellIndexed [OF d1, of m]
    note w2 = getLots_wellIndexed [OF d2, of m, folded g]
    have "map eraseLot l1 = map eraseLot l2 \<and> r1 = r2 \<and> c1 = c2
        \<and> map eraseUse v1 = map eraseUse v2"
      using consumeLots_erased [OF w1 w2 le _ o1 [unfolded sellOutcome_def]
          o2 [unfolded sellOutcome_def, folded g]] by simp
    with eq show ?thesis
      unfolding eraseEngine_eq processTx_sell [OF True o1] processTx_sell [OF True o2]
      by (simp add: saleOf_def eraseSale_def)
  next
    case False
    with na eq show ?thesis by (simp add: processTx_other)
  qed
qed

lemma fold_erased:
  assumes "eraseEngine s1 = eraseEngine s2"
    and "\<forall>a. distinct (map lot_id (e_lotsByAsset (fold (processTx env1 m) txs s1) a))"
    and "\<forall>a. distinct (map lot_id (e_lotsByAsset (fold (processTx env2 m) txs s2) a))"
  shows "eraseEngine (fold (processTx env1 m) txs s1)
       = eraseEngine (fold (processTx env2 m) txs s2)"
  using assms
proof (induction txs arbitrary: s1 s2)
  case Nil
  then show ?case by simp
next
  case (Cons tx txs)
  have d1: "distinct (map lot_id (e_lotsByAsset s1 a))" for a
    using Cons.prems(2) fold_distinct_start [of env1 m "tx # txs" s1 a] by blast
  have d2: "distinct (map lot_id (e_lotsByAsset s2 a))" for a
    using Cons.prems(3) fold_distinct_start [of env2 m "tx # txs" s2 a] by blast
  from step_erased [OF Cons.prems(1) d1 d2]
  have "eraseEngine (processTx env1 m tx s1) = eraseEngine (processTx env2 m tx s2)" .
  from Cons.IH [OF this] Cons.prems(2,3) show ?case by simp
qed

lemma unrealizedOf_erased: "unrealizedOf (map eraseLot lots) = unrealizedOf lots"
  by (simp add: unrealizedOf_def Let_def filter_map o_def foldl_map)

lemma finish_erased:
  assumes "eraseEngine s1 = eraseEngine s2"
  shows "eraseIds (finish s1) = eraseIds (finish s2)"
proof -
  from assms have k: "e_keys s1 = e_keys s2"
    and l: "\<And>a. map eraseLot (e_lotsByAsset s1 a) = map eraseLot (e_lotsByAsset s2 a)"
    and r: "map eraseSale (e_sales s1) = map eraseSale (e_sales s2)"
      "e_totalGains s1 = e_totalGains s2" "e_totalLosses s1 = e_totalLosses s2"
    unfolding eraseEngine_eq by simp_all
  have u: "unrealizedOf (e_lotsByAsset s1 a) = unrealizedOf (e_lotsByAsset s2 a)" for a
    using l [of a] unrealizedOf_erased by metis
  show ?thesis
    by (simp add: eraseIds_def finish_def k l r u map_concat o_def)
qed


subsection \<open>The sale recorded for a transaction\<close>





subsection \<open>Unrealized gains\<close>

lemma unrealizedStep_byAsset:
  "ut_byAsset (unrealizedStep prices acc entry) =
     (ut_byAsset acc)(fst entry \<mapsto>
       \<lparr>ub_amount = ue_amount (snd entry), ub_costBasis = ue_costBasis (snd entry),
        ub_currentValue = fl64 (ue_amount (snd entry) * currentPriceOf prices (fst entry)),
        ub_unrealizedGainLoss =
          (if ue_costBasis (snd entry) < 1 / 100 then 0
           else if fl64 (fl64 (ue_amount (snd entry) * currentPriceOf prices (fst entry))
                     - ue_costBasis (snd entry))
                   > fl64 (ue_amount (snd entry) * currentPriceOf prices (fst entry))
                then fl64 (fl64 (ue_amount (snd entry) * currentPriceOf prices (fst entry))
                       * (1 / 2))
           else fl64 (fl64 (ue_amount (snd entry) * currentPriceOf prices (fst entry))
                  - ue_costBasis (snd entry)))\<rparr>)"
  by (auto simp: unrealizedStep_def Let_def)

text \<open>The rounded difference of a double and a positive number does not exceed the double.\<close>

lemma fl64_diff_le:
  assumes "0 \<le> b"
  shows "fl64 (fl64 x - b) \<le> fl64 x"
proof -
  have "fl64 (fl64 x - b) \<le> fl64 (fl64 x)" using assms by (intro fl64_mono) simp
  then show ?thesis by simp
qed

lemma foldl_unrealized_other:
  "asset \<notin> fst ` set entries \<Longrightarrow>
   ut_byAsset (foldl (unrealizedStep prices) acc entries) asset = ut_byAsset acc asset"
  by (induction entries arbitrary: acc) (auto simp: unrealizedStep_byAsset)

lemma foldl_unrealized_entry:
  assumes "distinct (map fst entries)" and "(asset, data) \<in> set entries"
  shows "ut_byAsset (foldl (unrealizedStep prices) acc entries) asset
       = ut_byAsset (unrealizedStep prices acc (asset, data)) asset"
  using assms
proof (induction entries arbitrary: acc)
  case Nil
  then show ?case by simp
next
  case (Cons x rest)
  show ?case
  proof (cases "x = (asset, data)")
    case True
    with Cons.prems(1) have "asset \<notin> fst ` set rest" by auto
    with True show ?thesis by (simp add: foldl_unrealized_other)
  next
    case False
    with Cons.prems have "(asset, data) \<in> set rest" "distinct (map fst rest)" by simp_all
    from Cons.IH [OF this(2,1)] show ?thesis
      by (simp add: unrealizedStep_byAsset)
  qed
qed

subsection \<open>What a sale takes, with distinct identifiers\<close>








section \<open>Properties of the vault and of the storage\<close>









lemmas storage_eval = importBackupData_def setSecureData_def saveSettings_def andThen_def
  orElse_def ENCRYPTED_KEYS_def WALLETS_def TRANSACTIONS_def SNAPSHOTS_def PROVIDER_CONFIGS_def
  SETTINGS_def ONBOARDING_COMPLETE_def HIDDEN_ASSETS_def SPAM_ASSETS_def Let_def
  wrapVersioned_def
section \<open>Order of consumption (C1)\<close>



section \<open>Conservation of lots (C2)\<close>



section \<open>Encryption round trip (C3)\<close>



section \<open>Dependence on the clock and the random generator (C4)\<close>

text \<open>
  Claim C4 as stated does not hold: the identifiers of the lots are made of the clock
  reading and of a random suffix, so that two calls on the same transactions return
  different lots.
\<close>

theorem result_depends_on_entropy:
  "map lot_id (res_lots (calculateCostBasis entropyA oneBuy FIFO)) = [''b1-1700000000000-abcde'']
   \<and> map lot_id (res_lots (calculateCostBasis entropyB oneBuy FIFO)) = [''b1-1700000000001-vwxyz'']
   \<and> calculateCostBasis entropyA oneBuy FIFO \<noteq> calculateCostBasis entropyB oneBuy FIFO"
proof -
  have a: "map lot_id (res_lots (calculateCostBasis entropyA oneBuy FIFO)) = [''b1-1700000000000-abcde'']"
    by (simp add: engine_eval oneBuy_def entropyA_def)
  have b: "map lot_id (res_lots (calculateCostBasis entropyB oneBuy FIFO)) = [''b1-1700000000001-vwxyz'']"
    by (simp add: engine_eval oneBuy_def entropyB_def)
  have "calculateCostBasis entropyA oneBuy FIFO \<noteq> calculateCostBasis entropyB oneBuy FIFO"
  proof
    assume "calculateCostBasis entropyA oneBuy FIFO = calculateCostBasis entropyB oneBuy FIFO"
    then have "map lot_id (res_lots (calculateCostBasis entropyA oneBuy FIFO))
        = map lot_id (res_lots (calculateCostBasis entropyB oneBuy FIFO))" by simp
    then show False unfolding a b by simp
  qed
  with a b show ?thesis by simp
qed

text \<open>
  Claim C4, amended. Two calls on the same transactions and method whose lots got distinct
  identifiers return the same result up to the lot identifiers: the same lots, sales,
  totals and unrealized gains once the identifiers are blanked.
\<close>

theorem result_independent_of_entropy:
  assumes "distinct (map lot_id (res_lots (calculateCostBasis env1 txs m)))"
    and "distinct (map lot_id (res_lots (calculateCostBasis env2 txs m)))"
  shows "eraseIds (calculateCostBasis env1 txs m) = eraseIds (calculateCostBasis env2 txs m)"
proof -
  let ?s1 = "fold (processTx env1 m) (sortedTx txs) initEngine"
  let ?s2 = "fold (processTx env2 m) (sortedTx txs) initEngine"
  have i1: "engineInv ?s1" and i2: "engineInv ?s2"
    by (rule engineInv_fold [OF engineInv_init])+
  have d1: "\<forall>a. distinct (map lot_id (e_lotsByAsset ?s1 a))"
    using res_lots_distinct [OF i1] assms(1) unfolding calculateCostBasis_def by blast
  have d2: "\<forall>a. distinct (map lot_id (e_lotsByAsset ?s2 a))"
    using res_lots_distinct [OF i2] assms(2) unfolding calculateCostBasis_def by blast
  have "eraseEngine ?s1 = eraseEngine ?s2"
    by (rule fold_erased [OF refl d1 d2])
  then show ?thesis unfolding calculateCostBasis_def by (rule finish_erased)
qed

text \<open>The example of three lots under LIFO, with two readings of clock and generator.\<close>

theorem result_independent_of_entropy_witness:
  "map lot_id (res_lots (calculateCostBasis entropyA threeLots LIFO))
      = [''h1-1700000000000-abcde'', ''h2-1700000000000-abcde'', ''h3-1700000000000-abcde'']
   \<and> map lot_id (res_lots (calculateCostBasis entropyB threeLots LIFO))
      = [''h1-1700000000001-vwxyz'', ''h2-1700000000001-vwxyz'', ''h3-1700000000001-vwxyz'']
   \<and> eraseIds (calculateCostBasis entropyA threeLots LIFO)
      = eraseIds (calculateCostBasis entropyB threeLots LIFO)"
proof -
  have a: "map lot_id (res_lots (calculateCostBasis entropyA threeLots LIFO))
      = [''h1-1700000000000-abcde'', ''h2-1700000000000-abcde'', ''h3-1700000000000-abcde'']"
    by (simp add: engine_eval threeLots_def entropyA_def)
  have b: "map lot_id (res_lots (calculateCostBasis entropyB threeLots LIFO))
      = [''h1-1700000000001-vwxyz'', ''h2-1700000000001-vwxyz'', ''h3-1700000000001-vwxyz'']"
    by (simp add: engine_eval threeLots_def entropyB_def)
  have da: "distinct (map lot_id (res_lots (calculateCostBasis entropyA threeLots LIFO)))"
    unfolding a by simp
  have db: "distinct (map lot_id (res_lots (calculateCostBasis entropyB threeLots LIFO)))"
    unfolding b by simp
  from result_independent_of_entropy [OF da db] a b show ?thesis by simp
qed
section \<open>Sales beyond the lots (C5)\<close>




section \<open>Unrealized gains (C6)\<close>

text \<open>
  Claim C6. For every entry of the holdings given to \<open>calculateUnrealizedGains\<close> (the
  entries of an object have distinct keys), the reported entry of that asset has the
  current value \<open>amount * currentPrice\<close>, and its unrealized gain or loss is 0 when the
  cost basis is below 0.01; otherwise, when the current value minus the cost basis exceeds
  the current value, it is 50% of the current value; otherwise it is the current value
  minus the cost basis. The products and the difference are those that JavaScript
  computes. (The second case needs a negative cost basis, which the first case has taken,
  and rounding a difference does not lift it over the current value: the value reported is
  always 0 or the current value minus the cost basis.)
\<close>

theorem unrealized_gain_rule:
  assumes "distinct (map fst unrealizedGains)" and "(asset, data) \<in> set unrealizedGains"
  shows "\<exists>e. ut_byAsset (calculateUnrealizedGains unrealizedGains currentPrices) asset = Some e
    \<and> ub_amount e = ue_amount data \<and> ub_costBasis e = ue_costBasis data
    \<and> ub_currentValue e = fl64 (ue_amount data * currentPriceOf currentPrices asset)
    \<and> ub_unrealizedGainLoss e =
        (if ue_costBasis data < 1 / 100 then 0
         else if fl64 (ub_currentValue e - ue_costBasis data) > ub_currentValue e
              then fl64 (ub_currentValue e * (50 / 100))
         else fl64 (ub_currentValue e - ue_costBasis data))
    \<and> (ub_unrealizedGainLoss e = 0
        \<or> ub_unrealizedGainLoss e = fl64 (ub_currentValue e - ue_costBasis data))"
proof -
  have "\<not> fl64 (fl64 x - ue_costBasis data) > fl64 x" if "\<not> ue_costBasis data < 1 / 100" for x
    using fl64_diff_le [of "ue_costBasis data" x] that by simp
  then show ?thesis
    unfolding calculateUnrealizedGains_def foldl_unrealized_entry [OF assms]
    by (simp add: unrealizedStep_byAsset)
qed


text \<open>
  Two units with a cost basis of 100 at a price of 80: a gain of 60. Three units of unknown
  cost basis: 0.
\<close>

theorem unrealized_gain_rule_witness:
  "distinct (map fst someHoldings)
   \<and> map_option ub_unrealizedGainLoss
        (ut_byAsset (calculateUnrealizedGains someHoldings somePrices) ''BTC'') = Some 60
   \<and> map_option ub_unrealizedGainLoss
        (ut_byAsset (calculateUnrealizedGains someHoldings somePrices) ''SOL'') = Some 0"
proof -
  have d: "distinct (map fst someHoldings)" by (simp add: someHoldings_def)
  have b: "(''BTC'', \<lparr>ue_amount = 2, ue_costBasis = 100, ue_avgCost = 50\<rparr>) \<in> set someHoldings"
    and s: "(''SOL'', \<lparr>ue_amount = 3, ue_costBasis = 0, ue_avgCost = 0\<rparr>) \<in> set someHoldings"
    by (simp_all add: someHoldings_def)
  have p: "currentPriceOf somePrices ''BTC'' = 80" "currentPriceOf somePrices ''SOL'' = 20"
    by (simp_all add: currentPriceOf_def somePrices_def)
  from unrealized_gain_rule [OF d b, of somePrices] unrealized_gain_rule [OF d s, of somePrices]
  show ?thesis using d by (auto simp: p fl64_int)
qed

section \<open>Reading while the vault is locked (C7)\<close>

text \<open>
  Claim C7 as stated does not hold: \<open>getSecureData\<close> first returns the default when
  nothing is stored under the key, for every key, and only then looks at the vault. With a
  locked vault and an empty store, reading the wallets returns the default.
\<close>

theorem locked_read_without_data:
  "WALLETS \<in> set ENCRYPTED_KEYS \<and> st_vault lockedEmpty = None
   \<and> getSecureData modelPlatform lockedEmpty WALLETS (JArr []) = Inr (JArr [])"
  by (simp add: getSecureData_def lockedEmpty_def ENCRYPTED_KEYS_def)

text \<open>
  Claim C7, amended. For every key of the encrypted key set, when no vault is unlocked, a
  read of that key fails with \<open>VaultLockedError\<close> if a non-empty value is stored under the
  key, and returns the default given by the caller if nothing (or the empty string) is
  stored under it.
\<close>

theorem locked_read_fails:
  assumes "key \<in> set ENCRYPTED_KEYS" and "st_vault s = None"
  shows "getSecureData P s key defaultValue =
     (if st_localStorage s key = None \<or> st_localStorage s key = Some []
      then Inr defaultValue else Inl VaultLockedError)"
  using assms by (simp add: getSecureData_def split: option.splits)

text \<open>A locked vault and a stored ciphertext of the wallets: the read fails.\<close>

theorem locked_read_fails_witness:
  "WALLETS \<in> set ENCRYPTED_KEYS \<and> st_vault lockedWithData = None
   \<and> getSecureData modelPlatform lockedWithData WALLETS (JArr []) = Inl VaultLockedError"
proof -
  have k: "WALLETS \<in> set ENCRYPTED_KEYS" by (simp add: ENCRYPTED_KEYS_def)
  have v: "st_vault lockedWithData = None" by (simp add: lockedWithData_def)
  from locked_read_fails [OF k v, of modelPlatform "JArr []"] k v
  show ?thesis by (simp add: lockedWithData_def WALLETS_def)
qed
section \<open>Year filter (C8)\<close>

text \<open>
  Claim C8. Year filtering is idempotent: for every cost-basis result \<open>r\<close> and every
  year, filtering by that year the sales that the filter has kept (the taxable events of
  the first application, as the sales of \<open>r\<close>) gives the same totals, the same net gain
  and the same taxable events as the first application.
\<close>

theorem year_filter_idempotent:
  "filterTaxResultsByYear getFullYear
     (r\<lparr>res_sales := yr_taxableEvents (filterTaxResultsByYear getFullYear r year)\<rparr>) year
   = filterTaxResultsByYear getFullYear r year"
  by (simp add: filterTaxResultsByYear_def Let_def)

text \<open>
  One unit bought and sold twice, the first sale in 2023 and the second in 2024: the filter
  for 2023 keeps the first sale, with its gain of 40, and so does the filter applied again
  to what it kept.
\<close>

theorem year_filter_idempotent_witness:
  "map sale_gainLoss (yr_taxableEvents (filterTaxResultsByYear
      (\<lambda>t. if t < 1700000150000 then 2023 else 2024)
      (calculateCostBasis entropyA sellTwice FIFO) 2023)) = [40]
   \<and> yr_totalGains (filterTaxResultsByYear (\<lambda>t. if t < 1700000150000 then 2023 else 2024)
        (calculateCostBasis entropyA sellTwice FIFO) 2023) = 40
   \<and> yr_totalGains (filterTaxResultsByYear (\<lambda>t. if t < 1700000150000 then 2023 else 2024)
        ((calculateCostBasis entropyA sellTwice FIFO)\<lparr>res_sales := yr_taxableEvents
           (filterTaxResultsByYear (\<lambda>t. if t < 1700000150000 then 2023 else 2024)
              (calculateCostBasis entropyA sellTwice FIFO) 2023)\<rparr>) 2023) = 40"
proof -
  let ?y = "\<lambda>t :: real. if t < 1700000150000 then 2023 else (2024 :: int)"
  let ?r = "calculateCostBasis entropyA sellTwice FIFO"
  have s: "map (\<lambda>s. (tx_timestamp (sale_transaction s), sale_gainLoss s)) (res_sales ?r)
      = [(1700000100000, 40), (1700000200000, 70)]"
    by (simp add: engine_eval sellTwice_def entropyA_def)
  then obtain s1 s2 where r: "res_sales ?r = [s1, s2]"
    and s1: "tx_timestamp (sale_transaction s1) = 1700000100000" "sale_gainLoss s1 = 40"
    and s2: "tx_timestamp (sale_transaction s2) = 1700000200000" "sale_gainLoss s2 = 70"
    by auto
  have a: "map sale_gainLoss (yr_taxableEvents (filterTaxResultsByYear ?y ?r 2023)) = [40]"
    by (simp add: filterTaxResultsByYear_def Let_def r s1 s2)
  have b: "yr_totalGains (filterTaxResultsByYear ?y ?r 2023) = 40"
    by (simp add: filterTaxResultsByYear_def Let_def r s1 s2 fl64_int)
  from b year_filter_idempotent [of ?y ?r 2023]
  have c: "yr_totalGains (filterTaxResultsByYear ?y
      (?r\<lparr>res_sales := yr_taxableEvents (filterTaxResultsByYear ?y ?r 2023)\<rparr>) 2023) = 40"
    by simp
  show ?thesis by (intro conjI a b c)
qed

section \<open>Totals of a result (C9)\<close>

text \<open>
  Claim C9. In every result of \<open>calculateCostBasis\<close> and of \<open>filterTaxResultsByYear\<close>,
  \<open>totalGains\<close> and \<open>totalLosses\<close> are not negative and \<open>netGain\<close> is
  \<open>totalGains - totalLosses\<close>, the difference that JavaScript computes.
\<close>

theorem totals_nonneg_and_net:
  "0 \<le> res_totalGains (calculateCostBasis env txs m)
   \<and> 0 \<le> res_totalLosses (calculateCostBasis env txs m)
   \<and> res_netGain (calculateCostBasis env txs m)
       = fl64 (res_totalGains (calculateCostBasis env txs m)
               - res_totalLosses (calculateCostBasis env txs m))
   \<and> 0 \<le> yr_totalGains (filterTaxResultsByYear getFullYear r year)
   \<and> 0 \<le> yr_totalLosses (filterTaxResultsByYear getFullYear r year)
   \<and> yr_netGain (filterTaxResultsByYear getFullYear r year)
       = fl64 (yr_totalGains (filterTaxResultsByYear getFullYear r year)
               - yr_totalLosses (filterTaxResultsByYear getFullYear r year))"
proof -
  have "0 \<le> e_totalGains (fold (processTx env m) (sortedTx txs) initEngine)
      \<and> 0 \<le> e_totalLosses (fold (processTx env m) (sortedTx txs) initEngine)"
    by (rule fold_totals_nonneg) (simp_all add: initEngine_def)
  then have a: "0 \<le> res_totalGains (calculateCostBasis env txs m)"
    "0 \<le> res_totalLosses (calculateCostBasis env txs m)"
    by (simp_all add: calculateCostBasis_def finish_def)
  have b: "res_netGain (calculateCostBasis env txs m)
       = fl64 (res_totalGains (calculateCostBasis env txs m)
               - res_totalLosses (calculateCostBasis env txs m))"
    by (simp add: calculateCostBasis_def finish_def)
  have "0 \<le> foldl (\<lambda>sum s. fl64 (sum + max 0 (sale_gainLoss s))) 0 evts"
    and "0 \<le> foldl (\<lambda>sum s. fl64 (sum + \<bar>min 0 (sale_gainLoss s)\<bar>)) 0 evts" for evts
    by (rule foldl_nonneg; simp)+
  then have c: "0 \<le> yr_totalGains (filterTaxResultsByYear getFullYear r year)"
    "0 \<le> yr_totalLosses (filterTaxResultsByYear getFullYear r year)"
    by (simp_all add: filterTaxResultsByYear_def Let_def)
  have d: "yr_netGain (filterTaxResultsByYear getFullYear r year)
       = fl64 (yr_totalGains (filterTaxResultsByYear getFullYear r year)
               - yr_totalLosses (filterTaxResultsByYear getFullYear r year))"
    by (simp add: filterTaxResultsByYear_def Let_def)
  from a b c d show ?thesis by simp
qed

text \<open>The totals of the example of three lots under HIFO: a gain of 50 and no loss.\<close>

theorem totals_nonneg_and_net_witness:
  "res_totalGains (calculateCostBasis entropyA threeLots HIFO) = 50
   \<and> res_totalLosses (calculateCostBasis entropyA threeLots HIFO) = 0
   \<and> res_netGain (calculateCostBasis entropyA threeLots HIFO) = 50
   \<and> 0 \<le> yr_totalLosses (filterTaxResultsByYear (\<lambda>t. 2023)
             (calculateCostBasis entropyA threeLots HIFO) 2023)"
proof -
  have g: "res_totalGains (calculateCostBasis entropyA threeLots HIFO) = 50"
    by (simp add: engine_eval threeLots_def entropyA_def)
  have l: "res_totalLosses (calculateCostBasis entropyA threeLots HIFO) = 0"
    by (simp add: engine_eval threeLots_def entropyA_def)
  from g l totals_nonneg_and_net [of entropyA threeLots HIFO "\<lambda>t. 2023"
      "calculateCostBasis entropyA threeLots HIFO" 2023]
  show ?thesis by (simp add: fl64_int)
qed

section \<open>Import of a backup of another version (C10)\<close>

text \<open>
  Claim C10. \<open>importBackupData\<close> throws on a missing backup object and on one whose
  version tag is not 1, and the state is then as it was: the cache, the store and the
  writes under way are unchanged.
\<close>

theorem import_rejects_other_versions:
  assumes "backup = None \<or> (\<exists>b. backup = Some b \<and> bk_v b \<noteq> 1)"
  shows "importBackupData P backup s = (Some (Error ''Backup non supportato''), s)"
  using assms by (auto simp: importBackupData_def)

text \<open>
  A backup of version 2 is rejected and changes nothing; the same backup with version 1 is
  imported into the cache and the store.
\<close>

theorem import_rejects_other_versions_witness:
  "bk_v (backupOfVersion 2) \<noteq> 1
   \<and> importBackupData modelPlatform (Some (backupOfVersion 2)) unlockedEmpty
       = (Some (Error ''Backup non supportato''), unlockedEmpty)
   \<and> fst (importBackupData modelPlatform (Some (backupOfVersion 1)) unlockedEmpty) = None
   \<and> st_secureCache (snd (importBackupData modelPlatform (Some (backupOfVersion 1)) unlockedEmpty))
        WALLETS = Some (JArr [JStr ''w''])
   \<and> st_localStorage (snd (importBackupData modelPlatform (Some (backupOfVersion 1)) unlockedEmpty))
        ONBOARDING_COMPLETE = Some ''true''"
proof -
  have v: "bk_v (backupOfVersion 2) \<noteq> 1" by (simp add: backupOfVersion_def)
  then have h: "Some (backupOfVersion 2) = None
      \<or> (\<exists>b. Some (backupOfVersion 2) = Some b \<and> bk_v b \<noteq> 1)" by simp
  have a: "fst (importBackupData modelPlatform (Some (backupOfVersion 1)) unlockedEmpty) = None"
    by (simp add: storage_eval backupOfVersion_def unlockedEmpty_def)
  have b: "st_secureCache (snd (importBackupData modelPlatform (Some (backupOfVersion 1))
      unlockedEmpty)) WALLETS = Some (JArr [JStr ''w''])"
    by (simp add: storage_eval backupOfVersion_def unlockedEmpty_def)
  have c: "st_localStorage (snd (importBackupData modelPlatform (Some (backupOfVersion 1))
      unlockedEmpty)) ONBOARDING_COMPLETE = Some ''true''"
    by (simp add: storage_eval backupOfVersion_def unlockedEmpty_def)
  from import_rejects_other_versions [OF h, of modelPlatform unlockedEmpty] v a b c
  show ?thesis by simp
qed

end
